theory Spec2Isabelle
  imports Main "HOL-Library.Sublist"
begin

section \<open>Strings\<close>

text \<open>
  A Python string is modelled as a \<^typ>\<open>string\<close>, the bytes of its UTF-8 encoding: an
  ASCII character is one byte below 128, any other character is a sequence of bytes from
  128 on. \<^verbatim>\<open>needle in hay\<close> is \<^term>\<open>sublist needle hay\<close>, \<^verbatim>\<open>s.startswith(p)\<close> is
  \<^term>\<open>prefix p s\<close>. \<^verbatim>\<open>strip\<close> and the character classes of the patterns act on ASCII
  letters, digits and whitespace.
\<close>

definition is_upper :: "char \<Rightarrow> bool" where
  "is_upper c = (65 \<le> (of_char c :: nat) \<and> (of_char c :: nat) \<le> 90)"

definition is_lower :: "char \<Rightarrow> bool" where
  "is_lower c = (97 \<le> (of_char c :: nat) \<and> (of_char c :: nat) \<le> 122)"

definition is_digit :: "char \<Rightarrow> bool" where
  "is_digit c = (48 \<le> (of_char c :: nat) \<and> (of_char c :: nat) \<le> 57)"

text \<open>\<^verbatim>\<open>str.isspace\<close> on ASCII: tab, LF, VT, FF, CR, the separators 28..31 and the blank.\<close>

definition is_space :: "char \<Rightarrow> bool" where
  "is_space c = ((9 \<le> (of_char c :: nat) \<and> (of_char c :: nat) \<le> 13) \<or>
                 (28 \<le> (of_char c :: nat) \<and> (of_char c :: nat) \<le> 32))"

definition lower_char :: "char \<Rightarrow> char" where
  "lower_char c = (if is_upper c then char_of ((of_char c :: nat) + 32) else c)"

definition is_ascii :: "char \<Rightarrow> bool" where
  "is_ascii c = ((of_char c :: nat) < 128)"

text \<open>
  The Greek capital letters from U+0391 to U+03A9, in UTF-8 the byte 206 followed by a
  byte from 145 to 169 (162 is unassigned), and the small letters from U+03B1 to U+03C9.
\<close>

definition is_greek_capital :: "char \<Rightarrow> char \<Rightarrow> bool" where
  "is_greek_capital c d =
     ((of_char c :: nat) = 206 \<and> 145 \<le> (of_char d :: nat) \<and> (of_char d :: nat) \<le> 169 \<and>
      (of_char d :: nat) \<noteq> 162)"

definition is_greek_small :: "char \<Rightarrow> char \<Rightarrow> bool" where
  "is_greek_small c d =
     (((of_char c :: nat) = 206 \<and> 177 \<le> (of_char d :: nat) \<and> (of_char d :: nat) \<le> 191) \<or>
      ((of_char c :: nat) = 207 \<and> 128 \<le> (of_char d :: nat) \<and> (of_char d :: nat) \<le> 137))"

text \<open>
  The ASCII characters that the rule of the final sigma skips: apostrophe, full stop,
  colon, circumflex and grave accent.
\<close>

definition is_case_ignorable :: "char \<Rightarrow> bool" where
  "is_case_ignorable c = (c \<in> set [CHR 0x27, CHR ''.'', CHR '':'', CHR ''^'', CHR 0x60])"

text \<open>
  Whether the nearest character that is not skipped is a letter with case, looking back
  over the text before a position (nearest byte first) and ahead over the text after it.
\<close>

definition cased_before :: "string \<Rightarrow> bool" where
  "cased_before pre =
     (case dropWhile is_case_ignorable pre of
        [] \<Rightarrow> False
      | [b] \<Rightarrow> is_upper b \<or> is_lower b
      | b # c # _ \<Rightarrow> is_upper b \<or> is_lower b \<or> is_greek_capital c b \<or> is_greek_small c b)"

definition cased_after :: "string \<Rightarrow> bool" where
  "cased_after rest =
     (case dropWhile is_case_ignorable rest of
        [] \<Rightarrow> False
      | [b] \<Rightarrow> is_upper b \<or> is_lower b
      | b # c # _ \<Rightarrow> is_upper b \<or> is_lower b \<or> is_greek_capital b c \<or> is_greek_small b c)"

text \<open>
  The small form of the Greek capital with second byte \<open>d\<close>. The capital sigma (163)
  becomes the final sigma U+03C2 after a letter with case and not before one, and the
  sigma U+03C3 otherwise; every other capital becomes the letter 32 code points on.
\<close>

definition lower_greek :: "string \<Rightarrow> char \<Rightarrow> string \<Rightarrow> string" where
  "lower_greek pre d rest =
     (if (of_char d :: nat) = 163 then
        (if cased_before pre \<and> \<not> cased_after rest then [CHR 0xCF, CHR 0x82]
         else [CHR 0xCF, CHR 0x83])
      else if (of_char d :: nat) < 160 then [CHR 0xCE, char_of ((of_char d :: nat) + 32)]
      else [CHR 0xCF, char_of ((of_char d :: nat) - 32)])"

text \<open>
  \<^verbatim>\<open>s.lower()\<close>, for text of ASCII and Greek letters: an ASCII capital becomes its small
  letter, a Greek capital its small form, which for the sigma depends on the text around
  it; any other character is left as it is. \<open>pre\<close> is the text already passed.
\<close>

fun lower_from :: "string \<Rightarrow> string \<Rightarrow> string" where
  "lower_from pre [] = []"
| "lower_from pre [c] = [lower_char c]"
| "lower_from pre (c # d # rest) =
     (if is_greek_capital c d then lower_greek pre d rest @ lower_from (d # c # pre) rest
      else lower_char c # lower_from (c # pre) (d # rest))"

definition lower :: "string \<Rightarrow> string" where
  "lower s = lower_from [] s"

text \<open>\<^verbatim>\<open>s.strip()\<close>\<close>

definition strip :: "string \<Rightarrow> string" where
  "strip s = rev (dropWhile is_space (rev (dropWhile is_space s)))"

section \<open>Errors\<close>

text \<open>
  The exceptions the scripts can meet. Every \<^verbatim>\<open>except Exception\<close> of the source
  catches all of them.
\<close>

datatype py_error = RequestException | AttributeError | OSError

text \<open>\<^verbatim>\<open>try: body except Exception as e: handler\<close>\<close>

definition try_except :: "py_error + 'a \<Rightarrow> (py_error \<Rightarrow> py_error + 'a) \<Rightarrow> py_error + 'a" where
  "try_except body handler = (case body of Inl e \<Rightarrow> handler e | Inr v \<Rightarrow> Inr v)"

section \<open>Parsed documents\<close>

text \<open>
  The tree that \<^verbatim>\<open>BeautifulSoup(response.text, 'html.parser')\<close> builds. A string of the
  tree is either one that \<^verbatim>\<open>get_text\<close> collects (NavigableString, CData) or one it skips
  (comments, script and style contents, declarations). A tag has a name, its attributes
  and its children in document order. The parser itself is not modelled: a fetched page
  carries the markup and the tree built from it.
\<close>

datatype node =
    NavigableString string
  | OtherString string
  | Tag string "(string \<times> string) list" "node list"

record page =
  response_text :: string
  soup :: node

text \<open>\<^verbatim>\<open>tag.get_text()\<close>: the collected strings below the tag, joined in document order.\<close>

fun get_text :: "node \<Rightarrow> string" where
  "get_text (NavigableString s) = s"
| "get_text (OtherString s) = []"
| "get_text (Tag n atts cs) = concat (map get_text cs)"

text \<open>\<^verbatim>\<open>tag.descendants\<close>: every node below the tag, in document order.\<close>

fun descendants :: "node \<Rightarrow> node list" where
  "descendants (NavigableString s) = []"
| "descendants (OtherString s) = []"
| "descendants (Tag n atts cs) = concat (map (\<lambda>c. c # descendants c) cs)"

fun is_tag :: "node \<Rightarrow> bool" where
  "is_tag (Tag n atts cs) = True"
| "is_tag _ = False"

fun tag_name :: "node \<Rightarrow> string" where
  "tag_name (Tag n atts cs) = n"
| "tag_name _ = []"

text \<open>\<^verbatim>\<open>tag.get(key)\<close>: the attribute's value, or None.\<close>

fun tag_get :: "node \<Rightarrow> string \<Rightarrow> string option" where
  "tag_get (Tag n atts cs) key = map_of atts key"
| "tag_get _ key = None"

text \<open>
  \<^verbatim>\<open>soup.find_all(names, attr=pred)\<close>: the descendant tags, in document order, with one of
  the names and whose attribute satisfies the predicate. The predicate receives the
  attribute's value, None when the tag has no such attribute. (For the \<^verbatim>\<open>class\<close>
  attribute the library also offers each whitespace-separated token to the predicate; the
  predicates of this program test for keywords without whitespace, which occur in the
  value exactly when they occur in one of its tokens.)
\<close>

definition find_all :: "node \<Rightarrow> string list \<Rightarrow> string \<Rightarrow> (string option \<Rightarrow> bool) \<Rightarrow> node list" where
  "find_all root names attr pred =
     filter (\<lambda>d. is_tag d \<and> tag_name d \<in> set names \<and> pred (tag_get d attr)) (descendants root)"

text \<open>\<^verbatim>\<open>soup.find_all(name)\<close> and \<^verbatim>\<open>soup.find(name)\<close>, the latter also behind \<^verbatim>\<open>soup.title\<close>.\<close>

definition find_all_named :: "node \<Rightarrow> string \<Rightarrow> node list" where
  "find_all_named root name = filter (\<lambda>d. is_tag d \<and> tag_name d = name) (descendants root)"

definition find_tag :: "node \<Rightarrow> string \<Rightarrow> node option" where
  "find_tag root name = (case find_all_named root name of [] \<Rightarrow> None | t # _ \<Rightarrow> Some t)"

text \<open>
  \<^verbatim>\<open>tag.string\<close>: the single string child, or the \<^verbatim>\<open>.string\<close> of a single tag child;
  None when the tag has no child or more than one.
\<close>

fun tag_string :: "node \<Rightarrow> string option" where
  "tag_string (NavigableString s) = Some s"
| "tag_string (OtherString s) = Some s"
| "tag_string (Tag n atts [c]) = tag_string c"
| "tag_string (Tag n atts cs) = None"

section \<open>The network\<close>

text \<open>
  \<^verbatim>\<open>requests.get(url, ...)\<close> followed by the parse. The answer to a request depends on the
  URL and on how many requests were made before it; it is an exception or a page.
\<close>

type_synonym network = "nat \<Rightarrow> string \<Rightarrow> py_error + page"

section \<open>Signature matcher (py.py and Scrap.py, check\_competitor\_presence)\<close>

text \<open>\<^verbatim>\<open>WebsiteScraper.__init__\<close>: the configured names, lower-cased, in configured order.\<close>

definition init_competitors :: "string list \<Rightarrow> string list" where
  "init_competitors competitors = map lower competitors"

text \<open>
  The first loop: \<^verbatim>\<open>for competitor in self.competitors: if competitor in page_text or
  competitor in page_html: return True, competitor\<close>. None when the loop falls through.
\<close>

fun scan_page :: "string list \<Rightarrow> string \<Rightarrow> string \<Rightarrow> string option" where
  "scan_page [] page_text page_html = None"
| "scan_page (competitor # rest) page_text page_html =
     (if sublist competitor page_text \<or> sublist competitor page_html then Some competitor
      else scan_page rest page_text page_html)"

text \<open>The second loop, over the footer's text.\<close>

fun scan_footer :: "string list \<Rightarrow> string \<Rightarrow> string option" where
  "scan_footer [] footer_text = None"
| "scan_footer (competitor # rest) footer_text =
     (if sublist competitor footer_text then Some competitor
      else scan_footer rest footer_text)"

text \<open>The body of the \<^verbatim>\<open>try\<close>, after the fetch.\<close>

definition match_page :: "string list \<Rightarrow> page \<Rightarrow> bool \<times> string option" where
  "match_page competitors p =
     (let page_text = lower (get_text (soup p));
          page_html = lower (response_text p)
      in case scan_page competitors page_text page_html of
           Some competitor \<Rightarrow> (True, Some competitor)
         | None \<Rightarrow>
             (case find_tag (soup p) ''footer'' of
                Some footer \<Rightarrow>
                  (case scan_footer competitors (lower (get_text footer)) of
                     Some competitor \<Rightarrow> (True, Some competitor)
                   | None \<Rightarrow> (False, None))
              | None \<Rightarrow> (False, None)))"

text \<open>
  The whole method: the fetch and the scan inside \<^verbatim>\<open>try\<close>, any exception answered with
  \<^verbatim>\<open>(False, None)\<close>. The argument \<open>n\<close> counts the requests made so far.
\<close>

definition check_competitor_presence ::
  "network \<Rightarrow> nat \<Rightarrow> string list \<Rightarrow> string \<Rightarrow> py_error + (bool \<times> string option)" where
  "check_competitor_presence net n competitors url =
     try_except
       (case net n url of Inl e \<Rightarrow> Inl e | Inr p \<Rightarrow> Inr (match_page competitors p))
       (\<lambda>e. Inr (False, None))"

text \<open>The matcher with the footer branch removed.\<close>

definition match_page_no_footer :: "string list \<Rightarrow> page \<Rightarrow> bool \<times> string option" where
  "match_page_no_footer competitors p =
     (let page_text = lower (get_text (soup p));
          page_html = lower (response_text p)
      in case scan_page competitors page_text page_html of
           Some competitor \<Rightarrow> (True, Some competitor)
         | None \<Rightarrow> (False, None))"

section \<open>Regular expressions\<close>

text \<open>
  The fragment of Python's \<^verbatim>\<open>re\<close> that the patterns of the program use: literal
  characters, character classes, sequence, ordered alternation, the greedy optional
  \<^verbatim>\<open>r?\<close>, greedy bounded and unbounded repetition of a class (\<^verbatim>\<open>c+\<close> is
  \<open>Rep c 1 None\<close>, \<^verbatim>\<open>c*\<close> is \<open>Rep c 0 None\<close>, \<^verbatim>\<open>c{2}\<close> is \<open>Rep c 2 (Some 2)\<close>),
  the greedy \<^verbatim>\<open>(?:r)*\<close>, capturing groups and the word boundary \<^verbatim>\<open>\b\<close>.
\<close>

datatype regex =
    Eps
  | Chr char
  | Cls "char \<Rightarrow> bool"
  | Seq regex regex
  | Alt regex regex
  | Opt regex
  | Rep "char \<Rightarrow> bool" nat "nat option"
  | Star regex
  | Grp nat regex
  | WordB

fun seqs :: "regex list \<Rightarrow> regex" where
  "seqs [] = Eps"
| "seqs (r # rs) = Seq r (seqs rs)"

fun alts :: "regex list \<Rightarrow> regex" where
  "alts [] = Cls (\<lambda>c. False)"
| "alts [r] = r"
| "alts (r # rs) = Alt r (alts rs)"

definition lit :: "string \<Rightarrow> regex" where
  "lit s = seqs (map Chr s)"

text \<open>\<^verbatim>\<open>re.escape(s)\<close> compiled with \<^verbatim>\<open>re.IGNORECASE\<close>: the characters of s, in either case.\<close>

definition lit_ignorecase :: "string \<Rightarrow> regex" where
  "lit_ignorecase s = seqs (map (\<lambda>c. Cls (\<lambda>x. lower_char x = lower_char c)) s)"

text \<open>\<^verbatim>\<open>\w\<close>\<close>

definition is_word :: "char \<Rightarrow> bool" where
  "is_word c = (is_upper c \<or> is_lower c \<or> is_digit c \<or> c = CHR ''_'')"

text \<open>
  A position of the matcher: the text before it (nearest character first), the text
  from it on, and the groups captured so far (latest first).
\<close>

type_synonym mstate = "string \<times> string \<times> (nat \<times> string) list"

definition at_boundary :: "string \<Rightarrow> string \<Rightarrow> bool" where
  "at_boundary pre rest =
     ((case pre of [] \<Rightarrow> False | b # _ \<Rightarrow> is_word b) \<noteq>
      (case rest of [] \<Rightarrow> False | c # _ \<Rightarrow> is_word c))"

text \<open>
  All the ways the expression matches at a position, in the order in which the
  backtracking matcher tries them: the left alternative before the right one, the longer
  repetition before the shorter one. The head of the list is the match the library
  reports. The greedy star \<open>star_rounds\<close> tries one more round of the body, in each
  of the ways the body matches and only where it consumes text, before it stops; every
  round consumes a character, so as many rounds as there are characters left suffice.
\<close>

function rmatch :: "regex \<Rightarrow> mstate \<Rightarrow> mstate list"
  and star_rounds :: "regex \<Rightarrow> nat \<Rightarrow> mstate \<Rightarrow> mstate list" where
  "rmatch Eps st = [st]"
| "rmatch (Chr a) (pre, rest, groups) =
     (case rest of [] \<Rightarrow> [] | c # cs \<Rightarrow> if c = a then [(c # pre, cs, groups)] else [])"
| "rmatch (Cls p) (pre, rest, groups) =
     (case rest of [] \<Rightarrow> [] | c # cs \<Rightarrow> if p c then [(c # pre, cs, groups)] else [])"
| "rmatch (Seq r1 r2) st = concat (map (rmatch r2) (rmatch r1 st))"
| "rmatch (Alt r1 r2) st = rmatch r1 st @ rmatch r2 st"
| "rmatch (Opt r) st = rmatch r st @ [st]"
| "rmatch (Rep p lo hi) (pre, rest, groups) =
     (let avail = length (takeWhile p rest);
          most = (case hi of None \<Rightarrow> avail | Some h \<Rightarrow> min h avail)
      in map (\<lambda>k. (rev (take k rest) @ pre, drop k rest, groups)) (rev [lo..<Suc most]))"
| "rmatch (Star r) (pre, rest, groups) = star_rounds r (length rest) (pre, rest, groups)"
| "rmatch (Grp i r) (pre, rest, groups) =
     map (\<lambda>(pre', rest', groups').
            (pre', rest', (i, take (length rest - length rest') rest) # groups'))
         (rmatch r (pre, rest, groups))"
| "rmatch WordB (pre, rest, groups) =
     (if at_boundary pre rest then [(pre, rest, groups)] else [])"
| "star_rounds r 0 st = [st]"
| "star_rounds r (Suc n) st =
     concat (map (star_rounds r n)
                 (filter (\<lambda>st'. length (fst (snd st')) < length (fst (snd st))) (rmatch r st)))
     @ [st]"
  by pat_completeness auto
termination
  by (relation "inv_image (less_than <*lex*> less_than)
        (\<lambda>x. case x of Inl (r, st) \<Rightarrow> (2 * size r, 0) | Inr (r, n, st) \<Rightarrow> (2 * size r + 1, n))")
     auto

text \<open>A match object: \<^verbatim>\<open>m.start()\<close>, \<^verbatim>\<open>m.end()\<close>, \<^verbatim>\<open>m.group(0)\<close> and the captured groups.\<close>

record match =
  m_start :: nat
  m_end :: nat
  m_group0 :: string
  m_groups :: "(nat \<times> string) list"

definition mk_match :: "string \<Rightarrow> string \<Rightarrow> mstate \<Rightarrow> match" where
  "mk_match pre rest st =
     (case st of (pre', rest', groups) \<Rightarrow>
        \<lparr>m_start = length pre, m_end = length pre',
         m_group0 = take (length rest - length rest') rest, m_groups = groups\<rparr>)"

text \<open>\<^verbatim>\<open>m.group(i)\<close> for a group of the pattern.\<close>

definition match_group :: "match \<Rightarrow> nat \<Rightarrow> string" where
  "match_group m i = (case map_of (m_groups m) i of Some s \<Rightarrow> s | None \<Rightarrow> [])"

text \<open>\<^verbatim>\<open>re.search\<close>: the match at the leftmost position that has one.\<close>

fun search_from :: "regex \<Rightarrow> string \<Rightarrow> string \<Rightarrow> match option" where
  "search_from r pre [] =
     (case rmatch r (pre, [], []) of st # _ \<Rightarrow> Some (mk_match pre [] st) | [] \<Rightarrow> None)"
| "search_from r pre (c # cs) =
     (case rmatch r (pre, c # cs, []) of
        st # _ \<Rightarrow> Some (mk_match pre (c # cs) st)
      | [] \<Rightarrow> search_from r (c # pre) cs)"

definition re_search :: "regex \<Rightarrow> string \<Rightarrow> match option" where
  "re_search r s = search_from r [] s"

text \<open>\<^verbatim>\<open>re.match\<close>: a match at the start of the string only.\<close>

definition re_match :: "regex \<Rightarrow> string \<Rightarrow> match option" where
  "re_match r s =
     (case rmatch r ([], s, []) of st # _ \<Rightarrow> Some (mk_match [] s st) | [] \<Rightarrow> None)"

text \<open>
  \<^verbatim>\<open>re.findall\<close> for a pattern without groups: the matched substrings, left to right,
  without overlap. \<open>skip\<close> counts the characters still covered by the last match.
  The patterns it is used with match no empty string.
\<close>

fun findall_from :: "regex \<Rightarrow> string \<Rightarrow> string \<Rightarrow> nat \<Rightarrow> string list" where
  "findall_from r pre [] skip =
     (if skip = 0 \<and> rmatch r (pre, [], []) \<noteq> [] then [[]] else [])"
| "findall_from r pre (c # cs) skip =
     (if 0 < skip then findall_from r (c # pre) cs (skip - 1)
      else case rmatch r (pre, c # cs, []) of
             [] \<Rightarrow> findall_from r (c # pre) cs 0
           | (pre', rest', groups) # _ \<Rightarrow>
               take (Suc (length cs) - length rest') (c # cs) #
               findall_from r (c # pre) cs (length cs - length rest'))"

definition re_findall :: "regex \<Rightarrow> string \<Rightarrow> string list" where
  "re_findall r s = findall_from r [] s 0"

text \<open>
  \<^verbatim>\<open>re.sub(r, '', s)\<close>: the string without the matched substrings, which are found left
  to right and without overlap.
\<close>

fun sub_from :: "regex \<Rightarrow> string \<Rightarrow> string \<Rightarrow> nat \<Rightarrow> string" where
  "sub_from r pre [] skip = []"
| "sub_from r pre (c # cs) skip =
     (if 0 < skip then sub_from r (c # pre) cs (skip - 1)
      else case rmatch r (pre, c # cs, []) of
             [] \<Rightarrow> c # sub_from r (c # pre) cs 0
           | (pre', rest', groups) # _ \<Rightarrow>
               if length rest' \<le> length cs then sub_from r (c # pre) cs (length cs - length rest')
               else c # sub_from r (c # pre) cs 0)"

definition re_sub :: "regex \<Rightarrow> string \<Rightarrow> string" where
  "re_sub r s = sub_from r [] s 0"

text \<open>\<^verbatim>\<open>s.replace(old, '')\<close> for a non-empty \<open>old\<close>.\<close>

fun remove_from :: "string \<Rightarrow> string \<Rightarrow> nat \<Rightarrow> string" where
  "remove_from old [] skip = []"
| "remove_from old (c # cs) skip =
     (if 0 < skip then remove_from old cs (skip - 1)
      else if prefix old (c # cs) then remove_from old cs (length old - 1)
      else c # remove_from old cs 0)"

definition replace_empty :: "string \<Rightarrow> string \<Rightarrow> string" where
  "replace_empty s old = remove_from old s 0"

text \<open>\<^verbatim>\<open>sep.join(xs)\<close>\<close>

fun join :: "string \<Rightarrow> string list \<Rightarrow> string" where
  "join sep [] = []"
| "join sep [x] = x"
| "join sep (x # xs) = x @ sep @ join sep xs"

section \<open>Record assembler (py.py, extract\_clinic\_data)\<close>

record clinic_data =
  clinic_name :: string
  provider_name :: string
  credentials :: string
  website_url :: string
  city_state :: string
  contact_info :: string
  website_provider :: "string option"

text \<open>
  \<^verbatim>\<open>lambda c: c and any(x in c.lower() for x in keywords)\<close>, the test on the class
  attribute used by the three structural searches.
\<close>

definition class_has :: "string list \<Rightarrow> string option \<Rightarrow> bool" where
  "class_has keywords c =
     (case c of None \<Rightarrow> False
      | Some v \<Rightarrow> v \<noteq> [] \<and> list_ex (\<lambda>x. sublist x (lower v)) keywords)"

subsection \<open>Clinic name (lines 127 to 141)\<close>

text \<open>
  \<^verbatim>\<open>soup.title.string.strip()\<close> raises AttributeError when the title has no single
  string; nothing has been written to the record at that point.
\<close>

definition extract_name :: "node \<Rightarrow> py_error + string" where
  "extract_name sp =
     (case find_tag sp ''title'' of
        Some title \<Rightarrow>
          (case tag_string title of
             None \<Rightarrow> Inl AttributeError
           | Some s \<Rightarrow> Inr (strip s))
      | None \<Rightarrow>
          (case find_all_named sp ''h1'' of
             [] \<Rightarrow> Inr []
           | h1 # _ \<Rightarrow> Inr (strip (get_text h1))))"

text \<open>\<^verbatim>\<open>(Home\s*\|\s*)|(\s*\|\s*Home)\<close>\<close>

definition home_pattern :: regex where
  "home_pattern =
     Alt (Grp 1 (seqs [lit ''Home'', Rep is_space 0 None, Chr CHR ''|'', Rep is_space 0 None]))
         (Grp 2 (seqs [Rep is_space 0 None, Chr CHR ''|'', Rep is_space 0 None, lit ''Home'']))"

text \<open>\<^verbatim>\<open>r'\s*\|\s*' + re.escape(comp)\<close> with \<^verbatim>\<open>re.IGNORECASE\<close>\<close>

definition competitor_suffix_pattern :: "string \<Rightarrow> regex" where
  "competitor_suffix_pattern competitor =
     seqs [Rep is_space 0 None, Chr CHR ''|'', Rep is_space 0 None, lit_ignorecase competitor]"

definition clean_name :: "string list \<Rightarrow> string \<Rightarrow> string" where
  "clean_name competitors name =
     (if name \<noteq> [] then
        foldl (\<lambda>nm competitor. re_sub (competitor_suffix_pattern competitor) nm)
              (re_sub home_pattern name) competitors
      else name)"

subsection \<open>Provider name and credentials (lines 143 to 181)\<close>

definition about_sections :: "node \<Rightarrow> node list" where
  "about_sections sp =
     find_all sp [''div'', ''section'', ''article''] ''class''
       (class_has [''doctor'', ''provider'', ''team'', ''about'', ''staff'', ''physician''])"

text \<open>\<^verbatim>\<open>[A-Z][a-z]+\s+[A-Z][a-z]+\<close>\<close>

definition name_pattern :: regex where
  "name_pattern =
     seqs [Cls is_upper, Rep is_lower 1 None, Rep is_space 1 None,
           Cls is_upper, Rep is_lower 1 None]"

text \<open>\<^verbatim>\<open>(?:MD|DO|DDS|DMD|DC|DPM|DVM|VMD|PhD)\<close>\<close>

definition degree_pattern :: regex where
  "degree_pattern =
     alts (map lit [''MD'', ''DO'', ''DDS'', ''DMD'', ''DC'', ''DPM'', ''DVM'', ''VMD'', ''PhD''])"

definition doctor_patterns :: "regex list" where
  "doctor_patterns =
     [seqs [lit ''Dr'', Chr CHR ''.'', Rep is_space 1 None, Grp 1 name_pattern],
      seqs [Grp 1 name_pattern, Chr CHR '','', Rep is_space 1 None, degree_pattern],
      seqs [Grp 1 name_pattern, Rep is_space 1 None, degree_pattern]]"

text \<open>\<^verbatim>\<open>(MD|DO|DDS|DMD|DC|DPM|DVM|VMD|PhD|FACP|FACOG|FACS|FAAP|[A-Z\.]+)\<close>\<close>

definition credentials_pattern :: regex where
  "credentials_pattern =
     Grp 1 (alts (map lit [''MD'', ''DO'', ''DDS'', ''DMD'', ''DC'', ''DPM'', ''DVM'', ''VMD'',
                           ''PhD'', ''FACP'', ''FACOG'', ''FACS'', ''FAAP'']
                  @ [Rep (\<lambda>c. is_upper c \<or> c = CHR ''.'') 1 None]))"

text \<open>
  The inner loop over the name patterns, on one text. The state is the pair of the
  record's \<^verbatim>\<open>provider_name\<close> and \<^verbatim>\<open>credentials\<close>. The first pattern that matches
  writes the name, searches the credential in \<^verbatim>\<open>text[match.end():match.end()+50]\<close> and
  leaves the loop.
\<close>

fun provider_in_text :: "regex list \<Rightarrow> string \<Rightarrow> string \<times> string \<Rightarrow> string \<times> string" where
  "provider_in_text [] txt st = st"
| "provider_in_text (pattern # rest) txt (name, creds) =
     (case re_search pattern txt of
        Some m \<Rightarrow>
          (match_group m 1,
           case re_search credentials_pattern (take 50 (drop (m_end m) txt)) of
             Some cred_match \<Rightarrow> match_group cred_match 1
           | None \<Rightarrow> creds)
      | None \<Rightarrow> provider_in_text rest txt (name, creds))"

text \<open>The outer loop over the sections, left as soon as a name is set.\<close>

fun provider_in_sections :: "node list \<Rightarrow> string \<times> string \<Rightarrow> string \<times> string" where
  "provider_in_sections [] st = st"
| "provider_in_sections (section # rest) st =
     (let st' = provider_in_text doctor_patterns (get_text section) st
      in if fst st' \<noteq> [] then st' else provider_in_sections rest st')"

definition extract_provider :: "node \<Rightarrow> string \<times> string" where
  "extract_provider sp =
     (let st = provider_in_sections (about_sections sp) ([], [])
      in if fst st = [] then provider_in_text doctor_patterns (get_text sp) st else st)"

subsection \<open>City and state (lines 183 to 210)\<close>

definition address_elements :: "node \<Rightarrow> node list" where
  "address_elements sp =
     find_all sp [''address'', ''div'', ''p'', ''footer'', ''span''] ''class''
       (class_has [''address'', ''location'', ''contact'', ''footer''])"

text \<open>\<^verbatim>\<open>[a-zA-Z\s\.]\<close>\<close>

definition is_city_char :: "char \<Rightarrow> bool" where
  "is_city_char c = (is_lower c \<or> is_upper c \<or> is_space c \<or> c = CHR ''.'')"

text \<open>\<^verbatim>\<open>([A-Z][a-zA-Z\s\.]+),\s*([A-Z]{2})\s*\d{5}\<close>\<close>

definition city_zip_pattern :: regex where
  "city_zip_pattern =
     seqs [Grp 1 (seqs [Cls is_upper, Rep is_city_char 1 None]), Chr CHR '','',
           Rep is_space 0 None, Grp 2 (Rep is_upper 2 (Some 2)),
           Rep is_space 0 None, Rep is_digit 5 (Some 5)]"

text \<open>\<^verbatim>\<open>([A-Z][a-zA-Z\s\.]+),\s*([A-Z]{2})\<close>\<close>

definition city_pattern :: regex where
  "city_pattern =
     seqs [Grp 1 (seqs [Cls is_upper, Rep is_city_char 1 None]), Chr CHR '','',
           Rep is_space 0 None, Grp 2 (Rep is_upper 2 (Some 2))]"

definition city_state_patterns :: "regex list" where
  "city_state_patterns = [city_zip_pattern, city_pattern]"

text \<open>The inner loop over the patterns; the state is the record's \<^verbatim>\<open>city_state\<close>.\<close>

fun location_in_text :: "regex list \<Rightarrow> string \<Rightarrow> string \<Rightarrow> string" where
  "location_in_text [] txt cs = cs"
| "location_in_text (pattern # rest) txt cs =
     (case re_search pattern txt of
        Some m \<Rightarrow> strip (match_group m 1) @ '', '' @ match_group m 2
      | None \<Rightarrow> location_in_text rest txt cs)"

fun location_in_elements :: "node list \<Rightarrow> string \<Rightarrow> string" where
  "location_in_elements [] cs = cs"
| "location_in_elements (element # rest) cs =
     (let cs' = location_in_text city_state_patterns (get_text element) cs
      in if cs' \<noteq> [] then cs' else location_in_elements rest cs')"

definition extract_location :: "node \<Rightarrow> string" where
  "extract_location sp =
     (let cs = location_in_elements (address_elements sp) []
      in if cs = [] then location_in_text city_state_patterns (get_text sp) cs else cs)"

subsection \<open>Contact information (lines 212 to 271)\<close>

text \<open>\<^verbatim>\<open>[-.\s]\<close>\<close>

definition is_phone_sep :: "char \<Rightarrow> bool" where
  "is_phone_sep c = (c = CHR ''-'' \<or> c = CHR ''.'' \<or> is_space c)"

text \<open>\<^verbatim>\<open>(?:\+?1[-.\s]?)?(?:\(?\d{3}\)?[-.\s]?)?\d{3}[-.\s]?\d{4}\<close>\<close>

definition phone_pattern :: regex where
  "phone_pattern =
     seqs [Opt (seqs [Opt (Chr CHR ''+''), Chr CHR ''1'', Opt (Cls is_phone_sep)]),
           Opt (seqs [Opt (Chr CHR ''(''), Rep is_digit 3 (Some 3), Opt (Chr CHR '')''),
                      Opt (Cls is_phone_sep)]),
           Rep is_digit 3 (Some 3), Opt (Cls is_phone_sep), Rep is_digit 4 (Some 4)]"

definition is_local_char :: "char \<Rightarrow> bool" where
  "is_local_char c = (is_upper c \<or> is_lower c \<or> is_digit c \<or> c \<in> set ''._%+-'')"

definition is_domain_char :: "char \<Rightarrow> bool" where
  "is_domain_char c = (is_upper c \<or> is_lower c \<or> is_digit c \<or> c \<in> set ''.-'')"

definition is_tld_char :: "char \<Rightarrow> bool" where
  "is_tld_char c = (is_upper c \<or> c = CHR ''|'' \<or> is_lower c)"

text \<open>\<^verbatim>\<open>\b[A-Za-z0-9._%+-]+@[A-Za-z0-9.-]+\.[A-Z|a-z]{2,}\b\<close>\<close>

definition email_pattern :: regex where
  "email_pattern =
     seqs [WordB, Rep is_local_char 1 None, Chr CHR ''@'', Rep is_domain_char 1 None,
           Chr CHR ''.'', Rep is_tld_char 2 None, WordB]"

definition contact_elements :: "node \<Rightarrow> node list" where
  "contact_elements sp =
     find_all sp [''div'', ''p'', ''span'', ''a'', ''section''] ''class''
       (class_has [''contact'', ''phone'', ''email'', ''tel''])"

text \<open>
  \<^verbatim>\<open>soup.find_all('a', href=lambda h: h and h.startswith(scheme))\<close> and the loop over
  the links: the target without the scheme, stripped, kept when the pattern matches at
  its start.
\<close>

definition scheme_links :: "node \<Rightarrow> string \<Rightarrow> regex \<Rightarrow> string list" where
  "scheme_links sp scheme pattern =
     concat (map (\<lambda>link.
                    case tag_get link ''href'' of
                      None \<Rightarrow> []
                    | Some href \<Rightarrow>
                        (let target = strip (replace_empty href scheme)
                         in if re_match pattern target \<noteq> None then [target] else []))
                 (find_all sp [''a''] ''href''
                    (\<lambda>h. case h of None \<Rightarrow> False | Some v \<Rightarrow> v \<noteq> [] \<and> prefix scheme v)))"

definition collect_phones :: "node \<Rightarrow> string list" where
  "collect_phones sp =
     (let phone_numbers =
            concat (map (\<lambda>element. re_findall phone_pattern (get_text element))
                        (contact_elements sp))
            @ scheme_links sp ''tel:'' phone_pattern
      in if phone_numbers = [] then re_findall phone_pattern (get_text sp) else phone_numbers)"

definition collect_emails :: "node \<Rightarrow> string list" where
  "collect_emails sp =
     (let emails =
            concat (map (\<lambda>element. re_findall email_pattern (get_text element))
                        (contact_elements sp))
            @ scheme_links sp ''mailto:'' email_pattern
      in if emails = [] then re_findall email_pattern (get_text sp) else emails)"

text \<open>
  Lines 259 to 265, on \<^verbatim>\<open>phone_numbers[0]\<close>: \<^verbatim>\<open>re.sub(r'[^\d]', '', phone)\<close>, the length
  test and the two appends.
\<close>

definition format_phone :: "string \<Rightarrow> string" where
  "format_phone phone0 =
     (let phone = re_sub (Cls (\<lambda>c. \<not> is_digit c)) phone0
      in if length phone = 10 then
           ''('' @ take 3 phone @ '') '' @ take 3 (drop 3 phone) @ ''-'' @ drop 6 phone
         else phone0)"

text \<open>Lines 256 to 271; the result is the record's \<^verbatim>\<open>contact_info\<close>, empty when unset.\<close>

definition format_contact_info :: "string list \<Rightarrow> string list \<Rightarrow> string" where
  "format_contact_info phone_numbers emails =
     (let contact_info =
            (case phone_numbers of [] \<Rightarrow> [] | phone0 # _ \<Rightarrow> [format_phone phone0])
            @ (case emails of [] \<Rightarrow> [] | email0 # _ \<Rightarrow> [email0])
      in if contact_info \<noteq> [] then join '' | '' contact_info else [])"

definition extract_contact :: "node \<Rightarrow> string" where
  "extract_contact sp = format_contact_info (collect_phones sp) (collect_emails sp)"

subsection \<open>The method\<close>

definition initial_record :: "string \<Rightarrow> string option \<Rightarrow> clinic_data" where
  "initial_record url competitor =
     \<lparr>clinic_name = [], provider_name = [], credentials = [], website_url = url,
      city_state = [], contact_info = [], website_provider = competitor\<rparr>"

text \<open>
  The body of the \<^verbatim>\<open>try\<close>. The fetch and the title are the two places that can raise,
  both before the first write to the record, so the handler returns the record as it
  was initialised.
\<close>

definition extract_body :: "string list \<Rightarrow> clinic_data \<Rightarrow> page \<Rightarrow> py_error + clinic_data" where
  "extract_body competitors data p =
     (case extract_name (soup p) of
        Inl e \<Rightarrow> Inl e
      | Inr name \<Rightarrow>
          (let (provider, creds) = extract_provider (soup p)
           in Inr (data\<lparr>clinic_name := clean_name competitors name,
                        provider_name := provider,
                        credentials := creds,
                        city_state := extract_location (soup p),
                        contact_info := extract_contact (soup p)\<rparr>)))"

definition extract_clinic_data ::
  "network \<Rightarrow> nat \<Rightarrow> string list \<Rightarrow> string \<Rightarrow> string option \<Rightarrow> py_error + clinic_data" where
  "extract_clinic_data net n competitors url competitor =
     (let data = initial_record url competitor
      in try_except
           (case net n url of
              Inl e \<Rightarrow> Inl e
            | Inr p \<Rightarrow> extract_body competitors data p)
           (\<lambda>e. Inr data))"

section \<open>Batch processor (py.py, process\_urls)\<close>

text \<open>
  An entry of the URL list: \<^verbatim>\<open>load_urls_from_json\<close> appends whatever value the
  \<^verbatim>\<open>url\<close> key holds, a string or not.
\<close>

datatype pyval = Str string | NotStr

text \<open>What the loop prints for an entry: the competitor found, none found, or the error.\<close>

datatype outcome = Found "string option" string | NotFound string | Failed

record batch =
  results :: "clinic_data list"
  printed :: "outcome list"
  requests :: nat

text \<open>Lines 298 and 299.\<close>

definition fix_url :: "string \<Rightarrow> string" where
  "fix_url url = (if \<not> prefix ''http'' url then ''http://'' @ url else url)"

text \<open>
  The body of the \<^verbatim>\<open>try\<close> for one entry: the exception that left it, if any, and the
  state it left. \<^verbatim>\<open>url.startswith\<close> raises AttributeError on an entry that is not a
  string. Both callees catch every exception themselves; printing, logging and the
  pause after every fifth entry are taken to succeed and leave no trace but the outcome.
\<close>

definition process_one :: "network \<Rightarrow> string list \<Rightarrow> batch \<Rightarrow> pyval \<Rightarrow> py_error option \<times> batch" where
  "process_one net competitors b item =
     (case item of
        NotStr \<Rightarrow> (Some AttributeError, b)
      | Str u \<Rightarrow>
          (let url = fix_url u
           in case check_competitor_presence net (requests b) competitors url of
                Inl e \<Rightarrow> (Some e, b\<lparr>requests := requests b + 1\<rparr>)
              | Inr (has_competitor, competitor) \<Rightarrow>
                  if has_competitor then
                    (case extract_clinic_data net (requests b + 1) competitors url competitor of
                       Inl e \<Rightarrow>
                         (Some e, b\<lparr>printed := printed b @ [Found competitor url],
                                    requests := requests b + 2\<rparr>)
                     | Inr data \<Rightarrow>
                         (None, b\<lparr>results := results b @ [data],
                                  printed := printed b @ [Found competitor url],
                                  requests := requests b + 2\<rparr>))
                  else
                    (None, b\<lparr>printed := printed b @ [NotFound url],
                             requests := requests b + 1\<rparr>)))"

text \<open>The \<^verbatim>\<open>for\<close> loop with its \<^verbatim>\<open>except Exception\<close>, which prints and goes on.\<close>

fun process_loop :: "network \<Rightarrow> string list \<Rightarrow> batch \<Rightarrow> pyval list \<Rightarrow> batch" where
  "process_loop net competitors b [] = b"
| "process_loop net competitors b (item # items) =
     (case process_one net competitors b item of
        (None, b') \<Rightarrow> process_loop net competitors b' items
      | (Some e, b') \<Rightarrow>
          process_loop net competitors (b'\<lparr>printed := printed b' @ [Failed]\<rparr>) items)"

definition start_batch :: "nat \<Rightarrow> batch" where
  "start_batch n = \<lparr>results = [], printed = [], requests = n\<rparr>"

definition process_urls :: "network \<Rightarrow> nat \<Rightarrow> string list \<Rightarrow> pyval list \<Rightarrow> clinic_data list" where
  "process_urls net n competitors urls =
     results (process_loop net competitors (start_batch n) urls)"

section \<open>The earlier variant (Scrap.py): extract\_clinic\_data and process\_urls\<close>



text \<open>\<^verbatim>\<open>(?:Dr\.|MD|DO|DDS|DMD|DPM|DC|DVM|VMD|PhD|NP|PA)(?:\s*,\s*[A-Z]+)*\<close>\<close>

definition scrap_credentials_pattern :: regex where
  "scrap_credentials_pattern =
     Seq (alts (map lit [''Dr.'', ''MD'', ''DO'', ''DDS'', ''DMD'', ''DPM'', ''DC'', ''DVM'',
                         ''VMD'', ''PhD'', ''NP'', ''PA'']))
         (Star (seqs [Rep is_space 0 None, Chr CHR '','', Rep is_space 0 None,
                      Rep is_upper 1 None]))"

text \<open>\<^verbatim>\<open>r'([A-Z][a-z]+\s+[A-Z][a-z]+)\s+' + credentials_pattern\<close>\<close>

definition scrap_name_pattern :: regex where
  "scrap_name_pattern = seqs [Grp 1 name_pattern, Rep is_space 1 None, scrap_credentials_pattern]"

text \<open>
  Lines 134 to 143: the loop ends at the first section in which the credentials pattern
  matches, whether or not a name is found before the credentials.
\<close>

fun scrap_provider :: "node list \<Rightarrow> string option \<times> string option" where
  "scrap_provider [] = (None, None)"
| "scrap_provider (section # rest) =
     (case re_search scrap_credentials_pattern (get_text section) of
        Some credentials_match \<Rightarrow>
          (case re_search scrap_name_pattern (get_text section) of
             Some name_match \<Rightarrow>
               (Some (match_group name_match 1), Some (m_group0 credentials_match))
           | None \<Rightarrow> (None, None))
      | None \<Rightarrow> scrap_provider rest)"










section \<open>URL loading (Scrap.py, load\_urls\_from\_csv)\<close>

text \<open>The loop over the rows that \<^verbatim>\<open>csv.reader\<close> yields; a row is its list of fields.\<close>

fun load_rows :: "string list list \<Rightarrow> string list" where
  "load_rows [] = []"
| "load_rows (row # rows) =
     (case row of
        [] \<Rightarrow> load_rows rows
      | row0 # _ \<Rightarrow>
          if prefix ''http'' row0 then strip row0 # load_rows rows
          else (''http://'' @ strip row0) # load_rows rows)"

text \<open>The file is unreadable (the exception) or read as rows.\<close>

definition load_urls_from_csv :: "py_error + string list list \<Rightarrow> py_error + string list" where
  "load_urls_from_csv csv_file =
     try_except
       (case csv_file of Inl e \<Rightarrow> Inl e | Inr rows \<Rightarrow> Inr (load_rows rows))
       (\<lambda>e. Inr [])"

section \<open>Deduplication (Scrapper.py, run\_prospecting\_campaign)\<close>

record prospect =
  name :: "string option"
  url :: string
  prospect_provider_name :: "string option"
  prospect_credentials :: "string option"
  prospect_city_state :: "string option"
  prospect_contact_info :: "string option"
  prospect_website_provider :: "string option"
  vertical :: string

text \<open>Lines 340 to 343; the state is \<^verbatim>\<open>unique_prospects\<close> and \<^verbatim>\<open>unique_urls\<close>.\<close>

fun remove_duplicates ::
  "prospect list \<Rightarrow> prospect list \<times> string set \<Rightarrow> prospect list \<times> string set" where
  "remove_duplicates [] (unique_prospects, unique_urls) = (unique_prospects, unique_urls)"
| "remove_duplicates (p # all_prospects) (unique_prospects, unique_urls) =
     (if url p \<notin> unique_urls then
        remove_duplicates all_prospects (unique_prospects @ [p], insert (url p) unique_urls)
      else remove_duplicates all_prospects (unique_prospects, unique_urls))"

text \<open>
  Lines 336 to 349, from the prospects that the searches of lines 305 to 334 collected.
  \<^verbatim>\<open>save_to_csv\<close> and \<^verbatim>\<open>save_to_json\<close> open their files outside any \<^verbatim>\<open>try\<close>: each
  either raises or returns.
\<close>

definition run_prospecting_campaign ::
  "prospect list \<Rightarrow> (prospect list \<Rightarrow> py_error option) \<Rightarrow> (prospect list \<Rightarrow> py_error option)
     \<Rightarrow> py_error + prospect list" where
  "run_prospecting_campaign all_prospects save_to_csv save_to_json =
     (let unique_prospects = fst (remove_duplicates all_prospects ([], {}))
      in case save_to_csv unique_prospects of
           Some e \<Rightarrow> Inl e
         | None \<Rightarrow>
             (case save_to_json unique_prospects of
                Some e \<Rightarrow> Inl e
              | None \<Rightarrow> Inr unique_prospects))"

section \<open>Notions of the specification and example inputs\<close>

text \<open>
  A vendor string occurs in a document when it is a substring of the lower-cased
  visible text, of the lower-cased markup, or of the lower-cased text of the footer.
\<close>

definition vendor_occurs :: "string \<Rightarrow> page \<Rightarrow> bool" where
  "vendor_occurs c p =
     (sublist c (lower (get_text (soup p))) \<or> sublist c (lower (response_text p)) \<or>
      (case find_tag (soup p) ''footer'' of
         None \<Rightarrow> False
       | Some footer \<Rightarrow> sublist c (lower (get_text footer))))"

text \<open>A vendor string occurs in the page when it is in the first two of these.\<close>

definition vendor_in_page :: "string \<Rightarrow> page \<Rightarrow> bool" where
  "vendor_in_page c p =
     (sublist c (lower (get_text (soup p))) \<or> sublist c (lower (response_text p)))"

text \<open>Two bytes agree when they are equal or both outside ASCII.\<close>

definition agree :: "char \<Rightarrow> char \<Rightarrow> bool" where
  "agree a b = (a = b \<or> (\<not> is_ascii a \<and> \<not> is_ascii b))"

text \<open>
  The Greek capital alpha, the vendor name alpha sigma in capitals, and its lower-cased
  form, small alpha and final sigma.
\<close>

definition capital_alpha :: string where
  "capital_alpha = [CHR 0xCE, CHR 0x91]"

definition alpha_sigma :: string where
  "alpha_sigma = [CHR 0xCE, CHR 0x91, CHR 0xCE, CHR 0xA3]"

definition alpha_final_sigma :: string where
  "alpha_final_sigma = [CHR 0xCE, CHR 0xB1, CHR 0xCF, CHR 0x82]"

text \<open>
  A page whose footer holds alpha sigma and is followed by an alpha, the letters written
  as entities in the markup.
\<close>

definition example_sigma_footer :: node where
  "example_sigma_footer = Tag ''footer'' [] [NavigableString alpha_sigma]"

definition example_sigma_page :: page where
  "example_sigma_page =
     \<lparr>response_text = ''<footer>&Alpha;&Sigma;</footer>&Alpha;'',
      soup = Tag ''[document]'' []
               [example_sigma_footer, NavigableString capital_alpha]\<rparr>"

text \<open>The same page with a paragraph that names Tebra before the footer.\<close>

definition example_sigma_tebra_page :: page where
  "example_sigma_tebra_page =
     \<lparr>response_text = ''<p>Tebra</p><footer>&Alpha;&Sigma;</footer>&Alpha;'',
      soup = Tag ''[document]'' []
               [Tag ''p'' [] [NavigableString ''Tebra''],
                example_sigma_footer, NavigableString capital_alpha]\<rparr>"

text \<open>A network on which these two pages answer.\<close>

definition example_sigma_net :: network where
  "example_sigma_net n u =
     (if u = ''http://s.example.com'' then Inr example_sigma_page
      else if u = ''http://t.example.com'' then Inr example_sigma_tebra_page
      else Inl RequestException)"

text \<open>A page whose footer names two vendors, iMatrix before Tebra.\<close>

definition example_footer :: node where
  "example_footer =
     Tag ''footer'' [(''class'', ''site-footer'')]
       [NavigableString ''Website by iMatrix. Hosted with Tebra'']"

definition example_page :: page where
  "example_page =
     \<lparr>response_text = ''<html><body><p>Welcome</p><footer class=site-footer>Website by iMatrix. Hosted with Tebra</footer></body></html>'',
      soup = Tag ''[document]'' []
               [Tag ''html'' []
                  [Tag ''body'' []
                     [Tag ''p'' [] [NavigableString ''Welcome''], example_footer]]]\<rparr>"

text \<open>A network on which only one site answers.\<close>

definition example_net :: network where
  "example_net n u =
     (if u = ''http://b.example.com'' then Inr example_page else Inl RequestException)"

definition example_prospect :: "string \<Rightarrow> string \<Rightarrow> prospect" where
  "example_prospect nm u =
     \<lparr>name = Some nm, url = u, prospect_provider_name = None, prospect_credentials = None,
      prospect_city_state = None, prospect_contact_info = None,
      prospect_website_provider = None, vertical = ''dentistry''\<rparr>"

text \<open>A text with a plain city and state before a city and state with a ZIP code.\<close>

definition example_location_text :: string where
  "example_location_text =
     ''Visit us in Somewhere, CA today. Office: 1 Main St, Somewhere, CA 92101''"

text \<open>A clinic page with a title, an about section, three address elements and a phone.\<close>

definition example_clinic_page :: page where
  "example_clinic_page =
     \<lparr>response_text = ''<html>...</html>'',
      soup = Tag ''[document]'' []
        [Tag ''html'' []
          [Tag ''head'' []
             [Tag ''title'' [] [NavigableString ''Home | Bright Smiles Dental | Tebra'']],
           Tag ''body'' []
            [Tag ''div'' [(''class'', ''about-team'')] [NavigableString ''Jane Doe, MD''],
             Tag ''p'' [(''class'', ''contact-note'')] [NavigableString ''Call us''],
             Tag ''div'' [(''class'', ''location'')] [NavigableString example_location_text],
             Tag ''span'' [(''class'', ''address'')] [NavigableString ''Elsewhere, NY 10001''],
             Tag ''span'' [(''class'', ''phone'')] [NavigableString ''619.555.1234''],
             Tag ''footer'' [] [NavigableString ''Powered by Tebra'']]]]\<rparr>"

text \<open>A page whose title is empty, so that \<^verbatim>\<open>soup.title.string\<close> is None.\<close>

definition example_untitled_page :: page where
  "example_untitled_page =
     \<lparr>response_text = ''<title></title>'',
      soup = Tag ''[document]'' [] [Tag ''title'' [] []]\<rparr>"

text \<open>A network with the clinic page, the untitled page and no other site.\<close>

definition example_clinic_net :: network where
  "example_clinic_net n u =
     (if u = ''http://b.example.com'' then Inr example_clinic_page
      else if u = ''http://c.example.com'' then Inr example_untitled_page
      else Inl RequestException)"

text \<open>
  A record stands for a matching site of the batch: its URL is the normalised URL of a
  string entry, its provider is a configured vendor, and the matcher answered found for
  that URL with that vendor at some request.
\<close>

definition emitted_for_match :: "network \<Rightarrow> string list \<Rightarrow> pyval list \<Rightarrow> clinic_data \<Rightarrow> bool" where
  "emitted_for_match net cs urls r =
     (\<exists>u c k. Str u \<in> set urls \<and> website_url r = fix_url u \<and> c \<in> set cs \<and>
              website_provider r = Some c \<and>
              check_competitor_presence net k cs (fix_url u) = Inr (True, Some c))"


section \<open>Properties of the signature matcher\<close>

lemma sublist_concat_member: "x \<in> set xs \<Longrightarrow> sublist x (concat xs)"
  by (induction xs) (auto intro: sublist_order.order.trans)

lemma get_text_descendant:
  "d \<in> set (descendants t) \<Longrightarrow> sublist (get_text d) (get_text t)"
proof (induction t arbitrary: d rule: get_text.induct)
  case (3 n atts cs)
  then obtain c where c: "c \<in> set cs" and d: "d = c \<or> d \<in> set (descendants c)"
    by auto
  have "sublist (get_text c) (get_text (Tag n atts cs))"
    using c by (simp add: sublist_concat_member)
  moreover have "sublist (get_text d) (get_text c)"
    using d c "3.IH" by auto
  ultimately show ?case by (rule sublist_order.order.trans[rotated])
qed simp_all

lemma find_tag_descendant: "find_tag t nm = Some f \<Longrightarrow> f \<in> set (descendants t)"
proof -
  assume "find_tag t nm = Some f"
  then obtain r where "find_all_named t nm = f # r"
    by (auto simp: find_tag_def split: list.splits)
  then have "f \<in> set (find_all_named t nm)" by simp
  then show ?thesis by (simp add: find_all_named_def)
qed

lemma lower_greek_agree:
  "is_greek_capital c d \<Longrightarrow>
     list_all2 agree (lower_greek pre d rest) [lower_char c, lower_char d]"
  by (auto simp: is_greek_capital_def lower_greek_def agree_def is_ascii_def lower_char_def
                 is_upper_def)

lemma lower_from_agree: "list_all2 agree (lower_from pre s) (map lower_char s)"
proof (induction pre s rule: lower_from.induct)
  case (3 pre c d rest)
  show ?case
  proof (cases "is_greek_capital c d")
    case True
    from 3 True have "list_all2 agree (lower_from (d # c # pre) rest) (map lower_char rest)"
      by simp
    with lower_greek_agree[OF True, of pre rest]
    have "list_all2 agree (lower_greek pre d rest @ lower_from (d # c # pre) rest)
            ([lower_char c, lower_char d] @ map lower_char rest)"
      by (rule list_all2_appendI)
    with True show ?thesis by simp
  next
    case False
    with 3 show ?thesis by (simp add: agree_def)
  qed
qed (simp_all add: agree_def)

lemma agree_sublist:
  assumes "list_all2 agree s t" "list_all is_ascii v" "sublist v s"
  shows "sublist v t"
proof -
  from assms(3) obtain ps ss where s: "s = ps @ v @ ss" by (auto simp: sublist_def)
  with assms(1) obtain pt rest where t1: "t = pt @ rest" "list_all2 agree (v @ ss) rest"
    by (auto simp: list_all2_append1)
  then obtain v' st where t2: "rest = v' @ st" "list_all2 agree v v'"
    by (auto simp: list_all2_append1)
  have "v' = v" using t2(2) assms(2)
    by (induction v v' rule: list_all2_induct) (auto simp: agree_def)
  with t1 t2 show ?thesis by (auto simp: sublist_def)
qed

lemma agree_sym: "list_all2 agree s t \<Longrightarrow> list_all2 agree t s"
  by (simp add: list_all2_conv_all_nth agree_def) metis

text \<open>
  A needle of ASCII characters lies in the lower-cased text exactly when it lies in the
  text with its ASCII capitals made small: the small forms of the other letters hold no
  ASCII character.
\<close>

lemma ascii_needle_lower:
  assumes "list_all is_ascii v"
  shows "sublist v (lower s) \<longleftrightarrow> sublist v (map lower_char s)"
proof
  assume "sublist v (lower s)"
  then show "sublist v (map lower_char s)"
    unfolding lower_def by (rule agree_sublist[OF lower_from_agree assms])
next
  assume "sublist v (map lower_char s)"
  then show "sublist v (lower s)"
    unfolding lower_def by (rule agree_sublist[OF agree_sym[OF lower_from_agree] assms])
qed

lemma sublist_map_lower_char:
  "sublist a b \<Longrightarrow> sublist (map lower_char a) (map lower_char b)"
proof -
  assume "sublist a b"
  then obtain ps ss where "b = ps @ a @ ss" by (auto simp: sublist_def)
  then have "map lower_char b = map lower_char ps @ map lower_char a @ map lower_char ss"
    by simp
  then show ?thesis by (metis sublist_appendI)
qed

lemma ascii_needle_lower_mono:
  assumes "list_all is_ascii v" "sublist a b" "sublist v (lower a)"
  shows "sublist v (lower b)"
proof -
  from assms(1,3) have "sublist v (map lower_char a)" by (simp add: ascii_needle_lower)
  also have "sublist (map lower_char a) (map lower_char b)"
    using assms(2) by (rule sublist_map_lower_char)
  finally show ?thesis using assms(1) by (simp add: ascii_needle_lower)
qed

lemma found_tag_text_in_page_text:
  assumes "find_tag sp nm = Some t"
  shows "sublist (get_text t) (get_text sp)"
  using assms by (intro get_text_descendant find_tag_descendant)

lemma scan_page_find: "scan_page cs t h = List.find (\<lambda>c. sublist c t \<or> sublist c h) cs"
  by (induction cs) auto

lemma scan_footer_find: "scan_footer cs t = List.find (\<lambda>c. sublist c t) cs"
  by (induction cs) auto

text \<open>The two loops of the matcher: the first over the page, the second over the footer.\<close>

lemma match_page_in_page:
  "List.find (\<lambda>c. vendor_in_page c p) cs = Some c \<Longrightarrow> match_page cs p = (True, Some c)"
  by (simp add: match_page_def scan_page_find vendor_in_page_def)

lemma match_page_in_footer:
  "List.find (\<lambda>c. vendor_in_page c p) cs = None \<Longrightarrow>
   find_tag (soup p) ''footer'' = Some footer \<Longrightarrow>
   match_page cs p =
     (case List.find (\<lambda>c. sublist c (lower (get_text footer))) cs of
        Some c \<Rightarrow> (True, Some c) | None \<Rightarrow> (False, None))"
  by (simp add: match_page_def scan_page_find scan_footer_find vendor_in_page_def
           split: option.splits)

lemma match_page_no_footer_tag:
  "List.find (\<lambda>c. vendor_in_page c p) cs = None \<Longrightarrow>
   find_tag (soup p) ''footer'' = None \<Longrightarrow> match_page cs p = (False, None)"
  by (simp add: match_page_def scan_page_find vendor_in_page_def)

lemma match_page_no_footer_find:
  "match_page_no_footer cs p =
     (case List.find (\<lambda>c. vendor_in_page c p) cs of
        Some c \<Rightarrow> (True, Some c) | None \<Rightarrow> (False, None))"
  by (simp add: match_page_no_footer_def scan_page_find vendor_in_page_def)

lemma vendor_occurs_cases:
  "vendor_occurs c p \<longleftrightarrow>
     vendor_in_page c p \<or>
     (\<exists>footer. find_tag (soup p) ''footer'' = Some footer \<and>
               sublist c (lower (get_text footer)))"
  by (auto simp: vendor_occurs_def vendor_in_page_def split: option.splits)

lemma match_page_result:
  "(\<exists>c\<in>set cs. vendor_occurs c p \<and> match_page cs p = (True, Some c)) \<or>
   ((\<forall>c\<in>set cs. \<not> vendor_occurs c p) \<and> match_page cs p = (False, None))"
proof (cases "List.find (\<lambda>c. vendor_in_page c p) cs")
  case (Some c)
  then have "c \<in> set cs" "vendor_in_page c p"
    by (auto simp: find_Some_iff)
  with match_page_in_page[OF Some] show ?thesis
    by (auto simp: vendor_occurs_cases)
next
  case None
  then have nopage: "\<forall>c\<in>set cs. \<not> vendor_in_page c p" by (simp add: find_None_iff)
  show ?thesis
  proof (cases "find_tag (soup p) ''footer''")
    case nf: None
    with nopage match_page_no_footer_tag[OF None nf] show ?thesis
      by (auto simp: vendor_occurs_cases)
  next
    case f: (Some footer)
    show ?thesis
    proof (cases "List.find (\<lambda>c. sublist c (lower (get_text footer))) cs")
      case nn: None
      then have "\<forall>c\<in>set cs. \<not> sublist c (lower (get_text footer))"
        by (simp add: find_None_iff)
      with nopage f nn match_page_in_footer[OF None f] show ?thesis
        by (auto simp: vendor_occurs_cases)
    next
      case sf: (Some c)
      then have "c \<in> set cs" "sublist c (lower (get_text footer))"
        by (auto simp: find_Some_iff)
      with f sf match_page_in_footer[OF None f] show ?thesis
        by (auto simp: vendor_occurs_cases)
    qed
  qed
qed

lemma match_page_True_vendor:
  "match_page cs p = (True, vendor) \<Longrightarrow> \<exists>c\<in>set cs. vendor = Some c"
  using match_page_result[of cs p] by auto

text \<open>
  A vendor name of ASCII characters that lies in the lower-cased footer text lies in the
  lower-cased page text.
\<close>

lemma vendor_occurs_ascii:
  assumes "list_all is_ascii c"
  shows "vendor_occurs c p \<longleftrightarrow> vendor_in_page c p"
proof -
  have "sublist c (lower (get_text (soup p)))"
    if "find_tag (soup p) ''footer'' = Some footer" "sublist c (lower (get_text footer))"
    for footer
    using assms found_tag_text_in_page_text[OF that(1)] that(2)
    by (rule ascii_needle_lower_mono)
  then show ?thesis
    by (auto simp: vendor_occurs_cases vendor_in_page_def)
qed

lemma find_ascii_vendors:
  assumes "\<forall>c\<in>set cs. list_all is_ascii c"
  shows "List.find (\<lambda>c. vendor_in_page c p) cs = List.find (\<lambda>c. vendor_occurs c p) cs"
  using assms by (intro find_cong) (simp_all add: vendor_occurs_ascii)

lemma match_page_ascii:
  assumes "\<forall>c\<in>set cs. list_all is_ascii c"
  shows "match_page cs p =
     (case List.find (\<lambda>c. vendor_occurs c p) cs of
        Some c \<Rightarrow> (True, Some c) | None \<Rightarrow> (False, None))"
proof (cases "List.find (\<lambda>c. vendor_occurs c p) cs")
  case (Some c)
  with find_ascii_vendors[OF assms, of p] match_page_in_page[of p cs c] show ?thesis
    by simp
next
  case None
  then have "\<forall>c\<in>set cs. \<not> vendor_occurs c p" by (simp add: find_None_iff)
  with match_page_result[of cs p] None show ?thesis by auto
qed

lemma match_page_no_footer_ascii:
  assumes "\<forall>c\<in>set cs. list_all is_ascii c"
  shows "match_page_no_footer cs p =
     (case List.find (\<lambda>c. vendor_occurs c p) cs of
        Some c \<Rightarrow> (True, Some c) | None \<Rightarrow> (False, None))"
  by (simp add: match_page_no_footer_find find_ascii_vendors[OF assms])

lemma match_page_footer_contained:
  assumes "\<forall>footer. find_tag (soup p) ''footer'' = Some footer \<longrightarrow>
             sublist (lower (get_text footer)) (lower (get_text (soup p)))"
  shows "match_page cs p = match_page_no_footer cs p"
proof (cases "List.find (\<lambda>c. vendor_in_page c p) cs")
  case (Some c)
  with match_page_in_page[OF Some] show ?thesis by (simp add: match_page_no_footer_find)
next
  case None
  then have nopage: "\<forall>c\<in>set cs. \<not> vendor_in_page c p" by (simp add: find_None_iff)
  show ?thesis
  proof (cases "find_tag (soup p) ''footer''")
    case nf: None
    with None match_page_no_footer_tag[OF None nf] show ?thesis
      by (simp add: match_page_no_footer_find)
  next
    case f: (Some footer)
    with assms have sub: "sublist (lower (get_text footer)) (lower (get_text (soup p)))"
      by simp
    have "\<not> sublist c (lower (get_text footer))" if "c \<in> set cs" for c
    proof
      assume "sublist c (lower (get_text footer))"
      then have "sublist c (lower (get_text (soup p)))"
        using sub by (rule sublist_order.order.trans)
      with nopage that show False by (simp add: vendor_in_page_def)
    qed
    then have "List.find (\<lambda>c. sublist c (lower (get_text footer))) cs = None"
      by (simp add: find_None_iff)
    with None match_page_in_footer[OF None f] show ?thesis
      by (simp add: match_page_no_footer_find)
  qed
qed

lemma check_fetched:
  "net n u = Inr p \<Longrightarrow> check_competitor_presence net n cs u = Inr (match_page cs p)"
  by (simp add: check_competitor_presence_def try_except_def)

lemma check_failed:
  "net n u = Inl e \<Longrightarrow> check_competitor_presence net n cs u = Inr (False, None)"
  by (simp add: check_competitor_presence_def try_except_def)

lemma example_net_answers: "example_net n ''http://b.example.com'' = Inr example_page"
  by (simp add: example_net_def)

lemma example_sigma_net_answers:
  "example_sigma_net n ''http://s.example.com'' = Inr example_sigma_page"
  by (simp add: example_sigma_net_def)

lemma init_tebra_imatrix:
  "init_competitors [''Tebra'', ''iMatrix''] = [''tebra'', ''imatrix'']"
  by code_simp

lemma tebra_imatrix_ascii: "\<forall>c\<in>set [''tebra'', ''imatrix'']. list_all is_ascii c"
  by code_simp

lemma example_page_vendors:
  "vendor_occurs ''tebra'' example_page \<and> vendor_occurs ''imatrix'' example_page"
  by code_simp

lemma example_page_first_vendor:
  "List.find (\<lambda>c. vendor_in_page c example_page) (init_competitors [''Tebra'', ''iMatrix''])
     = Some ''tebra''"
  by code_simp

lemma example_sigma_page_footer:
  "List.find (\<lambda>c. vendor_in_page c example_sigma_page) (init_competitors [alpha_sigma]) = None \<and>
   find_tag (soup example_sigma_page) ''footer'' = Some example_sigma_footer \<and>
   List.find (\<lambda>c. sublist c (lower (get_text example_sigma_footer)))
     (init_competitors [alpha_sigma]) = Some alpha_final_sigma"
  by code_simp

text \<open>
  C1. For a fetched document and a configured vendor list, the matcher answers
  found = true exactly when some lower-cased vendor string is a substring of the
  lower-cased visible text, of the lower-cased markup or of the lower-cased footer text;
  when none is, it answers found = false and no vendor.
\<close>

theorem signature_match_found_iff:
  assumes "net n u = Inr p"
  shows "\<exists>found vendor.
           check_competitor_presence net n (init_competitors C) u = Inr (found, vendor) \<and>
           (found \<longleftrightarrow> (\<exists>v\<in>set C. vendor_occurs (lower v) p)) \<and>
           (\<not> found \<longrightarrow> vendor = None)"
proof -
  from match_page_result[of "init_competitors C" p] show ?thesis
  proof
    assume "\<exists>c\<in>set (init_competitors C).
              vendor_occurs c p \<and> match_page (init_competitors C) p = (True, Some c)"
    then obtain c where c: "c \<in> set (init_competitors C)" "vendor_occurs c p"
      and m: "match_page (init_competitors C) p = (True, Some c)"
      by auto
    from c have "\<exists>v\<in>set C. vendor_occurs (lower v) p"
      by (auto simp: init_competitors_def)
    with m show ?thesis
      by (intro exI[of _ True] exI[of _ "Some c"])
         (simp add: check_fetched[of net n u p, OF assms])
  next
    assume a: "(\<forall>c\<in>set (init_competitors C). \<not> vendor_occurs c p) \<and>
               match_page (init_competitors C) p = (False, None)"
    then have "\<not> (\<exists>v\<in>set C. vendor_occurs (lower v) p)"
      by (auto simp: init_competitors_def)
    with a show ?thesis
      by (intro exI[of _ False] exI[of _ None])
         (simp add: check_fetched[of net n u p, OF assms])
  qed
qed

theorem signature_match_found_iff_witness:
  "example_net 0 ''http://b.example.com'' = Inr example_page \<and>
   (\<exists>vendor.
      check_competitor_presence example_net 0 (init_competitors [''Tebra'', ''iMatrix''])
        ''http://b.example.com'' = Inr (True, vendor)) \<and>
   (\<exists>v\<in>set [''Tebra'', ''iMatrix'']. vendor_occurs (lower v) example_page)"
proof -
  have h: "example_net 0 ''http://b.example.com'' = Inr example_page"
    by (rule example_net_answers)
  have occ: "\<exists>v\<in>set [''Tebra'', ''iMatrix'']. vendor_occurs (lower v) example_page"
    using example_page_vendors init_tebra_imatrix by (simp add: init_competitors_def)
  from signature_match_found_iff[of example_net 0 "''http://b.example.com''" example_page
      "[''Tebra'', ''iMatrix'']", OF h]
  obtain found vendor where
    r: "check_competitor_presence example_net 0 (init_competitors [''Tebra'', ''iMatrix''])
          ''http://b.example.com'' = Inr (found, vendor)"
    and f: "found \<longleftrightarrow> (\<exists>v\<in>set [''Tebra'', ''iMatrix'']. vendor_occurs (lower v) example_page)"
    by auto
  from f occ have "found" by simp
  with r have "\<exists>vendor.
      check_competitor_presence example_net 0 (init_competitors [''Tebra'', ''iMatrix''])
        ''http://b.example.com'' = Inr (True, vendor)"
    by auto
  with h occ show ?thesis by simp
qed

text \<open>
  C3, as the program has it. The matcher goes through the configured order twice. It
  returns the first vendor of the configured order that lies in the lower-cased visible
  text or in the lower-cased markup; only when there is none, it returns the first vendor
  of the configured order that lies in the lower-cased footer text. When the lower-cased
  vendor names are ASCII, the vendor returned is the first of the configured order that
  occurs in any of the three. The vendor is returned in its lower-cased form, so with
  Tebra and iMatrix configured in that order and both present the answer is the string
  tebra.
\<close>

theorem vendor_first_in_configured_order:
  assumes "net n u = Inr p"
  shows "(\<forall>c. List.find (\<lambda>c. vendor_in_page c p) (init_competitors C) = Some c \<longrightarrow>
            check_competitor_presence net n (init_competitors C) u = Inr (True, Some c)) \<and>
         (\<forall>footer c.
            List.find (\<lambda>c. vendor_in_page c p) (init_competitors C) = None \<and>
            find_tag (soup p) ''footer'' = Some footer \<and>
            List.find (\<lambda>c. sublist c (lower (get_text footer))) (init_competitors C) = Some c \<longrightarrow>
            check_competitor_presence net n (init_competitors C) u = Inr (True, Some c)) \<and>
         ((\<forall>c\<in>set (init_competitors C). list_all is_ascii c) \<and>
          (\<exists>c\<in>set (init_competitors C). vendor_occurs c p) \<longrightarrow>
            (\<exists>c. List.find (\<lambda>c. vendor_occurs c p) (init_competitors C) = Some c \<and>
                 check_competitor_presence net n (init_competitors C) u = Inr (True, Some c))) \<and>
         (vendor_occurs ''tebra'' p \<and> vendor_occurs ''imatrix'' p \<longrightarrow>
            check_competitor_presence net n (init_competitors [''Tebra'', ''iMatrix'']) u
              = Inr (True, Some ''tebra''))"
proof (intro conjI)
  show "\<forall>c. List.find (\<lambda>c. vendor_in_page c p) (init_competitors C) = Some c \<longrightarrow>
            check_competitor_presence net n (init_competitors C) u = Inr (True, Some c)"
    by (simp add: check_fetched[of net n u p, OF assms] match_page_in_page)
  show "\<forall>footer c.
            List.find (\<lambda>c. vendor_in_page c p) (init_competitors C) = None \<and>
            find_tag (soup p) ''footer'' = Some footer \<and>
            List.find (\<lambda>c. sublist c (lower (get_text footer))) (init_competitors C) = Some c \<longrightarrow>
            check_competitor_presence net n (init_competitors C) u = Inr (True, Some c)"
    by (simp add: check_fetched[of net n u p, OF assms] match_page_in_footer)
  show "(\<forall>c\<in>set (init_competitors C). list_all is_ascii c) \<and>
          (\<exists>c\<in>set (init_competitors C). vendor_occurs c p) \<longrightarrow>
            (\<exists>c. List.find (\<lambda>c. vendor_occurs c p) (init_competitors C) = Some c \<and>
                 check_competitor_presence net n (init_competitors C) u = Inr (True, Some c))"
  proof
    assume a: "(\<forall>c\<in>set (init_competitors C). list_all is_ascii c) \<and>
               (\<exists>c\<in>set (init_competitors C). vendor_occurs c p)"
    then have "List.find (\<lambda>c. vendor_occurs c p) (init_competitors C) \<noteq> None"
      by (auto simp: find_None_iff)
    then obtain c where "List.find (\<lambda>c. vendor_occurs c p) (init_competitors C) = Some c"
      by auto
    with a show "\<exists>c. List.find (\<lambda>c. vendor_occurs c p) (init_competitors C) = Some c \<and>
                 check_competitor_presence net n (init_competitors C) u = Inr (True, Some c)"
      by (simp add: check_fetched[of net n u p, OF assms] match_page_ascii)
  qed
  show "vendor_occurs ''tebra'' p \<and> vendor_occurs ''imatrix'' p \<longrightarrow>
           check_competitor_presence net n (init_competitors [''Tebra'', ''iMatrix'']) u
             = Inr (True, Some ''tebra'')"
    using match_page_ascii[OF tebra_imatrix_ascii, of p]
    by (simp add: check_fetched[of net n u p, OF assms] init_tebra_imatrix)
qed

theorem vendor_first_in_configured_order_witness:
  "example_net 0 ''http://b.example.com'' = Inr example_page \<and>
   List.find (\<lambda>c. vendor_in_page c example_page) (init_competitors [''Tebra'', ''iMatrix''])
     = Some ''tebra'' \<and>
   list_all (list_all is_ascii) (init_competitors [''Tebra'', ''iMatrix'']) \<and>
   vendor_occurs ''tebra'' example_page \<and> vendor_occurs ''imatrix'' example_page \<and>
   check_competitor_presence example_net 0 (init_competitors [''Tebra'', ''iMatrix''])
     ''http://b.example.com'' = Inr (True, Some ''tebra'') \<and>
   example_sigma_net 0 ''http://s.example.com'' = Inr example_sigma_page \<and>
   List.find (\<lambda>c. vendor_in_page c example_sigma_page) (init_competitors [alpha_sigma]) = None \<and>
   find_tag (soup example_sigma_page) ''footer'' = Some example_sigma_footer \<and>
   List.find (\<lambda>c. sublist c (lower (get_text example_sigma_footer)))
     (init_competitors [alpha_sigma]) = Some alpha_final_sigma \<and>
   check_competitor_presence example_sigma_net 0 (init_competitors [alpha_sigma])
     ''http://s.example.com'' = Inr (True, Some alpha_final_sigma)"
proof -
  have h: "example_net 0 ''http://b.example.com'' = Inr example_page"
    by (rule example_net_answers)
  have s: "example_sigma_net 0 ''http://s.example.com'' = Inr example_sigma_page"
    by (rule example_sigma_net_answers)
  have a: "list_all (list_all is_ascii) (init_competitors [''Tebra'', ''iMatrix''])"
    by code_simp
  have t: "check_competitor_presence example_net 0 (init_competitors [''Tebra'', ''iMatrix''])
             ''http://b.example.com'' = Inr (True, Some ''tebra'')"
    using vendor_first_in_configured_order[of example_net 0 "''http://b.example.com''"
        example_page "[''Tebra'', ''iMatrix'']", OF h] example_page_first_vendor
    by blast
  have f: "check_competitor_presence example_sigma_net 0 (init_competitors [alpha_sigma])
             ''http://s.example.com'' = Inr (True, Some alpha_final_sigma)"
    using vendor_first_in_configured_order[of example_sigma_net 0 "''http://s.example.com''"
        example_sigma_page "[alpha_sigma]", OF s] example_sigma_page_footer
    by blast
  from h s a t f example_page_first_vendor example_page_vendors example_sigma_page_footer
  show ?thesis by blast
qed

text \<open>
  The claim C3 as worded names the returned vendor Tebra: on the example page, where both
  vendors are present, the matcher does not return that string.
\<close>

theorem vendor_returned_lower_cased_counterexample:
  "vendor_occurs (lower ''Tebra'') example_page \<and> vendor_occurs (lower ''iMatrix'') example_page \<and>
   check_competitor_presence example_net 0 (init_competitors [''Tebra'', ''iMatrix''])
     ''http://b.example.com'' \<noteq> Inr (True, Some ''Tebra'')"
  by code_simp

text \<open>
  The two passes show in the order when a vendor name is not ASCII. With alpha sigma
  configured before Tebra, on a page whose footer text is alpha sigma and whose page
  text goes on with an alpha, both vendors occur, alpha sigma only in the footer text,
  and the matcher returns tebra, the second of the configured order.
\<close>

lemma vendor_order_two_passes_example:
  "init_competitors [alpha_sigma, ''Tebra''] = [alpha_final_sigma, ''tebra''] \<and>
   vendor_occurs alpha_final_sigma example_sigma_tebra_page \<and>
   vendor_occurs ''tebra'' example_sigma_tebra_page \<and>
   check_competitor_presence example_sigma_net 0 (init_competitors [alpha_sigma, ''Tebra''])
     ''http://t.example.com'' = Inr (True, Some ''tebra'')"
  by code_simp

text \<open>
  C9, as the program has it. The text of the footer is a substring of the text of the
  whole document. When the vendor names are ASCII, and whenever the lower-cased footer
  text is a substring of the lower-cased document text, the matcher answers the same with
  and without the scan of the footer.
\<close>

theorem footer_scan_redundant:
  "(\<forall>footer. find_tag (soup p) ''footer'' = Some footer \<longrightarrow>
              sublist (get_text footer) (get_text (soup p))) \<and>
   ((\<forall>c\<in>set competitors. list_all is_ascii c) \<longrightarrow>
      match_page competitors p = match_page_no_footer competitors p) \<and>
   ((\<forall>footer. find_tag (soup p) ''footer'' = Some footer \<longrightarrow>
               sublist (lower (get_text footer)) (lower (get_text (soup p)))) \<longrightarrow>
      match_page competitors p = match_page_no_footer competitors p)"
proof (intro conjI)
  show "\<forall>footer. find_tag (soup p) ''footer'' = Some footer \<longrightarrow>
              sublist (get_text footer) (get_text (soup p))"
    by (simp add: found_tag_text_in_page_text)
  show "(\<forall>c\<in>set competitors. list_all is_ascii c) \<longrightarrow>
      match_page competitors p = match_page_no_footer competitors p"
    by (simp add: match_page_ascii match_page_no_footer_ascii)
  show "(\<forall>footer. find_tag (soup p) ''footer'' = Some footer \<longrightarrow>
               sublist (lower (get_text footer)) (lower (get_text (soup p)))) \<longrightarrow>
      match_page competitors p = match_page_no_footer competitors p"
    using match_page_footer_contained[of p competitors] by blast
qed

theorem footer_scan_redundant_witness:
  "find_tag (soup example_page) ''footer'' = Some example_footer \<and>
   sublist (get_text example_footer) (get_text (soup example_page)) \<and>
   list_all (list_all is_ascii) [''tebra''] \<and>
   sublist (lower (get_text example_footer)) (lower (get_text (soup example_page))) \<and>
   match_page [''tebra''] example_page = match_page_no_footer [''tebra''] example_page"
proof -
  have f: "find_tag (soup example_page) ''footer'' = Some example_footer"
    by code_simp
  have a: "list_all (list_all is_ascii) [''tebra'']"
    by code_simp
  have l: "sublist (lower (get_text example_footer)) (lower (get_text (soup example_page)))"
    by code_simp
  from a have "match_page [''tebra''] example_page = match_page_no_footer [''tebra''] example_page"
    using footer_scan_redundant[of example_page "[''tebra'']"] by (simp add: list_all_iff)
  with footer_scan_redundant[of example_page "[''tebra'']"] f a l show ?thesis by blast
qed

text \<open>
  The claim C9 as worded speaks of every document and every vendor list. With the vendor
  alpha sigma, on the page whose footer text is alpha sigma and whose page text goes on
  with an alpha, the lower-cased footer text ends in the final sigma, the lower-cased
  page text has the other sigma and the markup has the letters as entities: the scan of
  the page finds nothing, the scan of the footer finds the vendor.
\<close>

theorem footer_scan_needed_counterexample:
  "find_tag (soup example_sigma_page) ''footer'' = Some example_sigma_footer \<and>
   sublist (get_text example_sigma_footer) (get_text (soup example_sigma_page)) \<and>
   \<not> sublist (lower (get_text example_sigma_footer)) (lower (get_text (soup example_sigma_page))) \<and>
   match_page (init_competitors [alpha_sigma]) example_sigma_page
     = (True, Some alpha_final_sigma) \<and>
   match_page_no_footer (init_competitors [alpha_sigma]) example_sigma_page = (False, None)"
  by code_simp

section \<open>Properties of the phone format\<close>

lemma sub_from_nondigit:
  "sub_from (Cls (\<lambda>c. \<not> is_digit c)) pre s 0 = filter is_digit s"
  by (induction s arbitrary: pre) auto

text \<open>
  C4. The first phone string has its non-digit characters removed; when exactly ten
  digits remain it is stored as (AAA) BBB-CCCC, otherwise the string is stored as it was
  found. So 619.555.1234 is stored as (619) 555-1234 and the seven-digit 555-1234 is
  stored unchanged.
\<close>

theorem phone_normalization:
  "format_contact_info (phone # phones) [] =
     (let d = filter is_digit phone
      in if length d = 10 then ''('' @ take 3 d @ '') '' @ take 3 (drop 3 d) @ ''-'' @ drop 6 d
         else phone) \<and>
   format_contact_info (phone # phones) (email # emails) =
     format_contact_info (phone # phones) [] @ '' | '' @ email \<and>
   format_contact_info [''619.555.1234''] [] = ''(619) 555-1234'' \<and>
   format_contact_info [''555-1234''] [] = ''555-1234''"
proof -
  have a: "format_contact_info (ph # phs) [] =
     (let d = filter is_digit ph
      in if length d = 10 then ''('' @ take 3 d @ '') '' @ take 3 (drop 3 d) @ ''-'' @ drop 6 d
         else ph)" for ph phs
    by (simp add: format_contact_info_def format_phone_def re_sub_def sub_from_nondigit)
  have b: "format_contact_info (phone # phones) (email # emails) =
     format_contact_info (phone # phones) [] @ '' | '' @ email"
    by (simp add: format_contact_info_def)
  have c: "format_contact_info [''619.555.1234''] [] = ''(619) 555-1234''"
    by code_simp
  have d: "format_contact_info [''555-1234''] [] = ''555-1234''"
    by code_simp
  from a b c d show ?thesis by blast
qed

theorem phone_normalization_witness:
  "format_contact_info [''(619) 555 1234 x'', ''555-0000''] [''info@a.example.com''] =
     ''(619) 555-1234 | info@a.example.com'' \<and>
   collect_phones (soup example_clinic_page) = [''619.555.1234''] \<and>
   extract_contact (soup example_clinic_page) = ''(619) 555-1234''"
proof -
  have "filter is_digit ''(619) 555 1234 x'' = ''6195551234''" by code_simp
  moreover have "collect_phones (soup example_clinic_page) = [''619.555.1234'']" by code_simp
  moreover have "collect_emails (soup example_clinic_page) = []" by code_simp
  ultimately show ?thesis
    using phone_normalization[of "''(619) 555 1234 x''" "[''555-0000'']"
            "''info@a.example.com''" "[]"]
          phone_normalization[of "''619.555.1234''" "[]" "[]" "[]"]
    by (simp add: extract_contact_def)
qed

section \<open>Properties of the deduplication\<close>

lemma remove_duplicates_inv:
  "remove_duplicates ps (acc, S) = (r, S') \<Longrightarrow>
     \<exists>r'. r = acc @ r' \<and> subseq r' ps \<and> distinct (map url r') \<and>
          url ` set r' = url ` set ps - S \<and>
          (\<forall>p\<in>set r'. List.find (\<lambda>q. url q = url p) ps = Some p)"
proof (induction ps arbitrary: acc S)
  case Nil
  then show ?case by simp
next
  case (Cons p ps)
  show ?case
  proof (cases "url p \<in> S")
    case True
    with Cons.prems have "remove_duplicates ps (acc, S) = (r, S')" by simp
    from Cons.IH[OF this] obtain r' where r': "r = acc @ r'" "subseq r' ps"
      "distinct (map url r')" "url ` set r' = url ` set ps - S"
      "\<forall>p\<in>set r'. List.find (\<lambda>q. url q = url p) ps = Some p" by blast
    have "url p \<notin> url ` set r'" using r'(4) True by blast
    then have "\<forall>q\<in>set r'. url q \<noteq> url p" by (metis imageI)
    with r' True show ?thesis
      by (intro exI[of _ r']) auto
  next
    case False
    with Cons.prems have "remove_duplicates ps (acc @ [p], insert (url p) S) = (r, S')" by simp
    from Cons.IH[OF this] obtain r' where r': "r = (acc @ [p]) @ r'" "subseq r' ps"
      "distinct (map url r')" "url ` set r' = url ` set ps - insert (url p) S"
      "\<forall>p\<in>set r'. List.find (\<lambda>q. url q = url p) ps = Some p" by blast
    have "url p \<notin> url ` set r'" using r'(4) by blast
    then have "\<forall>q\<in>set r'. url q \<noteq> url p" by (metis imageI)
    with r' False show ?thesis
      by (intro exI[of _ "p # r'"]) auto
  qed
qed

text \<open>
  C10. The list that the campaign returns holds every URL of the collected prospects
  exactly once, each with the first record collected for it, in the order of collection.
\<close>

theorem dedup_keeps_first_occurrence:
  assumes "run_prospecting_campaign all_prospects save_to_csv save_to_json = Inr final"
  shows "distinct (map url final) \<and>
         url ` set final = url ` set all_prospects \<and>
         (\<forall>p\<in>set final. List.find (\<lambda>q. url q = url p) all_prospects = Some p) \<and>
         subseq final all_prospects"
proof -
  from assms have "final = fst (remove_duplicates all_prospects ([], {}))"
    by (auto simp: run_prospecting_campaign_def Let_def split: option.splits)
  then obtain S' where "remove_duplicates all_prospects ([], {}) = (final, S')"
    by (metis prod.collapse)
  from remove_duplicates_inv[OF this] show ?thesis by auto
qed

theorem dedup_keeps_first_occurrence_witness:
  "run_prospecting_campaign
     [example_prospect ''A'' ''http://a.example.com'',
      example_prospect ''B'' ''http://b.example.com'',
      example_prospect ''A again'' ''http://a.example.com'']
     (\<lambda>ps. None) (\<lambda>ps. None)
   = Inr [example_prospect ''A'' ''http://a.example.com'',
          example_prospect ''B'' ''http://b.example.com''] \<and>
   distinct (map url [example_prospect ''A'' ''http://a.example.com'',
                      example_prospect ''B'' ''http://b.example.com'']) \<and>
   subseq [example_prospect ''A'' ''http://a.example.com'',
           example_prospect ''B'' ''http://b.example.com'']
     [example_prospect ''A'' ''http://a.example.com'',
      example_prospect ''B'' ''http://b.example.com'',
      example_prospect ''A again'' ''http://a.example.com'']"
proof -
  have run: "run_prospecting_campaign
     [example_prospect ''A'' ''http://a.example.com'',
      example_prospect ''B'' ''http://b.example.com'',
      example_prospect ''A again'' ''http://a.example.com'']
     (\<lambda>ps. None) (\<lambda>ps. None)
   = Inr [example_prospect ''A'' ''http://a.example.com'',
          example_prospect ''B'' ''http://b.example.com'']"
    by (simp add: run_prospecting_campaign_def example_prospect_def)
  from dedup_keeps_first_occurrence[OF run] run show ?thesis by blast
qed

section \<open>Properties of the matcher of regular expressions\<close>

lemma take_le_takeWhile:
  "k \<le> length (takeWhile p xs) \<Longrightarrow> list_all p (take k xs) \<and> length (take k xs) = k"
proof -
  assume k: "k \<le> length (takeWhile p xs)"
  have "take k xs = take k (takeWhile p xs @ dropWhile p xs)" by simp
  also have "\<dots> = take k (takeWhile p xs)" using k by (simp del: takeWhile_dropWhile_id)
  finally have eq: "take k xs = take k (takeWhile p xs)" .
  have "set (take k (takeWhile p xs)) \<subseteq> set (takeWhile p xs)" by (rule set_take_subset)
  then have "list_all p (take k xs)"
    unfolding eq list_all_iff by (auto dest: set_takeWhileD)
  moreover have "length (take k xs) = k"
    using k length_takeWhile_le[of p xs] by simp
  ultimately show ?thesis by simp
qed

lemma group_take:
  "k \<le> length (takeWhile c r) \<Longrightarrow> take (length r - length (drop k r)) r = take k r"
  using length_takeWhile_le[of c r] by simp

lemma search_from_Some:
  "search_from r pre s = Some m \<Longrightarrow>
     \<exists>pre' rest' st. st \<in> set (rmatch r (pre', rest', [])) \<and> m = mk_match pre' rest' st"
proof (induction s arbitrary: pre)
  case Nil
  then obtain st sts where "rmatch r (pre, [], []) = st # sts" "m = mk_match pre [] st"
    by (auto split: list.splits)
  then have "st \<in> set (rmatch r (pre, [], []))" "m = mk_match pre [] st" by simp_all
  then show ?case by blast
next
  case (Cons c cs)
  show ?case
  proof (cases "rmatch r (pre, c # cs, [])")
    case Nil
    with Cons.prems have "search_from r (c # pre) cs = Some m" by simp
    from Cons.IH[OF this] show ?thesis .
  next
    case (Cons st sts)
    with Cons.prems have "m = mk_match pre (c # cs) st" by simp
    moreover have "st \<in> set (rmatch r (pre, c # cs, []))" using Cons by simp
    ultimately show ?thesis by blast
  qed
qed

lemma rmatch_Eps_iff: "st' \<in> set (rmatch Eps st) \<longleftrightarrow> st' = st"
  by simp

lemma rmatch_Seq_iff:
  "st' \<in> set (rmatch (Seq a b) st) \<longleftrightarrow>
     (\<exists>pm rm gm. (pm, rm, gm) \<in> set (rmatch a st) \<and> st' \<in> set (rmatch b (pm, rm, gm)))"
  by auto

lemma rmatch_Chr_iff:
  "(p', r', g') \<in> set (rmatch (Chr a) (p, r, g)) \<longleftrightarrow> r = a # r' \<and> p' = a # p \<and> g' = g"
  by (auto split: list.splits)

lemma rmatch_Cls_iff:
  "(p', r', g') \<in> set (rmatch (Cls c) (p, r, g)) \<longleftrightarrow>
     (\<exists>x. c x \<and> r = x # r' \<and> p' = x # p \<and> g' = g)"
  by (auto split: list.splits)

lemma rmatch_Rep_iff:
  "(p', r', g') \<in> set (rmatch (Rep c lo hi) (p, r, g)) \<longleftrightarrow>
     (\<exists>k. lo \<le> k \<and> k \<le> length (takeWhile c r) \<and> k \<le> length r \<and>
          (case hi of None \<Rightarrow> True | Some h \<Rightarrow> k \<le> h) \<and>
          p' = rev (take k r) @ p \<and> r' = drop k r \<and> g' = g)"
proof -
  define most where
    "most = (case hi of None \<Rightarrow> length (takeWhile c r) | Some h \<Rightarrow> min h (length (takeWhile c r)))"
  have S: "set (rmatch (Rep c lo hi) (p, r, g)) =
          (\<lambda>k. (rev (take k r) @ p, drop k r, g)) ` {lo..<Suc most}"
    by (simp add: Let_def most_def del: upt_Suc)
  have rng: "k \<in> {lo..<Suc most} \<longleftrightarrow>
      lo \<le> k \<and> k \<le> length (takeWhile c r) \<and> k \<le> length r \<and>
      (case hi of None \<Rightarrow> True | Some h \<Rightarrow> k \<le> h)" for k
    using length_takeWhile_le[of c r] by (cases hi) (auto simp: most_def)
  show ?thesis unfolding S image_iff Bex_def rng by auto
qed

lemma rmatch_Grp_iff:
  "(p', r', g') \<in> set (rmatch (Grp i a) (p, r, g)) \<longleftrightarrow>
     (\<exists>g0. (p', r', g0) \<in> set (rmatch a (p, r, g)) \<and>
           g' = (i, take (length r - length r') r) # g0)"
  by force

lemmas rmatch_iffs = rmatch_Eps_iff rmatch_Seq_iff rmatch_Chr_iff rmatch_Cls_iff rmatch_Rep_iff rmatch_Grp_iff

lemma strip_nonempty: "x \<in> set s \<Longrightarrow> \<not> is_space x \<Longrightarrow> strip s \<noteq> []"
proof -
  assume x: "x \<in> set s" "\<not> is_space x"
  then have "x \<in> set (dropWhile is_space s)"
    by (induction s) auto
  then have "x \<in> set (rev (dropWhile is_space s))" by simp
  with x(2) have "dropWhile is_space (rev (dropWhile is_space s)) \<noteq> []"
    by (metis dropWhile_eq_Nil_conv)
  then show ?thesis by (simp add: strip_def)
qed

lemma upper_not_space: "is_upper c \<Longrightarrow> \<not> is_space c"
  by (auto simp: is_upper_def is_space_def)

lemma city_pattern_groups:
  assumes "(p1, r1, g1) \<in> set (rmatch city_pattern (pre, rest, []))"
  shows "\<exists>city state x. g1 = [(2, state), (1, city)] \<and> length state = 2 \<and>
           list_all is_upper state \<and> x \<in> set city \<and> is_upper x"
  using assms unfolding city_pattern_def seqs.simps
  by (simp only: rmatch_iffs) (auto simp: group_take take_le_takeWhile Suc_diff_le)

lemma city_zip_pattern_groups:
  assumes "(p1, r1, g1) \<in> set (rmatch city_zip_pattern (pre, rest, []))"
  shows "\<exists>city state x. g1 = [(2, state), (1, city)] \<and> length state = 2 \<and>
           list_all is_upper state \<and> x \<in> set city \<and> is_upper x"
  using assms unfolding city_zip_pattern_def seqs.simps
  by (simp only: rmatch_iffs) (auto simp: group_take take_le_takeWhile Suc_diff_le)

lemma re_search_Some:
  "re_search r s = Some m \<Longrightarrow>
     \<exists>pre rest p1 r1. (p1, r1, m_groups m) \<in> set (rmatch r (pre, rest, []))"
proof -
  assume "re_search r s = Some m"
  then obtain pre' rest' st where st: "st \<in> set (rmatch r (pre', rest', []))"
    "m = mk_match pre' rest' st"
    unfolding re_search_def by (blast dest: search_from_Some)
  obtain p1 r1 g1 where "st = (p1, r1, g1)" by (cases st)
  with st show ?thesis by (auto simp: mk_match_def)
qed

section \<open>Properties of the record assembler and the batch processor\<close>

lemma check_total:
  "\<exists>found vendor. check_competitor_presence net n cs u = Inr (found, vendor)"
  by (cases "net n u"; cases "match_page cs (projr (net n u))")
     (auto simp: check_competitor_presence_def try_except_def)

lemma check_True_vendor:
  assumes "check_competitor_presence net n cs u = Inr (True, vendor)"
  shows "\<exists>c\<in>set cs. vendor = Some c"
proof (cases "net n u")
  case (Inl e)
  with assms show ?thesis by (simp add: check_failed[of net n u e])
next
  case (Inr p)
  with assms have "match_page cs p = (True, vendor)"
    by (simp add: check_fetched[of net n u p])
  then show ?thesis by (rule match_page_True_vendor)
qed

lemma extract_body_fields:
  "extract_body cs d p = Inr r \<Longrightarrow> website_url r = website_url d \<and> website_provider r = website_provider d"
  by (auto simp: extract_body_def split: sum.splits prod.splits)

lemma extract_total:
  "\<exists>r. extract_clinic_data net n cs u c = Inr r \<and> website_url r = u \<and> website_provider r = c"
proof (cases "net n u")
  case (Inl e)
  then show ?thesis
    by (simp add: extract_clinic_data_def try_except_def initial_record_def)
next
  case (Inr p)
  show ?thesis
  proof (cases "extract_body cs (initial_record u c) p")
    case (Inl e)
    with Inr show ?thesis
      by (simp add: extract_clinic_data_def try_except_def initial_record_def)
  next
    case r: (Inr r)
    from extract_body_fields[OF r] r Inr show ?thesis
      by (simp add: extract_clinic_data_def try_except_def initial_record_def)
  qed
qed

lemma process_one_NotStr: "process_one net cs b NotStr = (Some AttributeError, b)"
  by (simp add: process_one_def)

lemma process_one_found:
  assumes "check_competitor_presence net (requests b) cs (fix_url u) = Inr (True, c)"
  shows "\<exists>r. extract_clinic_data net (requests b + 1) cs (fix_url u) c = Inr r \<and>
             website_url r = fix_url u \<and> website_provider r = c \<and>
             process_one net cs b (Str u) =
               (None, b\<lparr>results := results b @ [r],
                        printed := printed b @ [Found c (fix_url u)],
                        requests := requests b + 2\<rparr>)"
proof -
  from extract_total[of net "requests b + 1" cs "fix_url u" c] obtain r where
    r: "extract_clinic_data net (requests b + 1) cs (fix_url u) c = Inr r"
       "website_url r = fix_url u" "website_provider r = c" by blast
  with assms show ?thesis by (simp add: process_one_def)
qed

lemma process_one_not_found:
  assumes "check_competitor_presence net (requests b) cs (fix_url u) = Inr (False, c)"
  shows "process_one net cs b (Str u) =
           (None, b\<lparr>printed := printed b @ [NotFound (fix_url u)], requests := requests b + 1\<rparr>)"
  using assms by (simp add: process_one_def)




lemma process_loop_single_NotStr:
  "results (process_loop net cs b [NotStr]) = results b"
  by (simp add: process_one_NotStr)

lemma process_one_cases:
  "\<exists>b'. (process_one net cs b item = (None, b') \<or> process_one net cs b item = (Some AttributeError, b')) \<and>
        (results b' = results b \<or>
         (\<exists>r. results b' = results b @ [r] \<and> emitted_for_match net cs [item] r)) \<and>
        length (printed b') + (case fst (process_one net cs b item) of None \<Rightarrow> 0 | Some e \<Rightarrow> 1)
          = length (printed b) + 1"
proof (cases item)
  case NotStr
  then show ?thesis by (simp add: process_one_NotStr)
next
  case (Str u)
  from check_total[of net "requests b" cs "fix_url u"] obtain found vendor where
    ch: "check_competitor_presence net (requests b) cs (fix_url u) = Inr (found, vendor)" by blast
  show ?thesis
  proof (cases found)
    case False
    with ch Str show ?thesis by (simp add: process_one_not_found)
  next
    case True
    from check_True_vendor[of net "requests b" cs "fix_url u" vendor] ch True
    obtain c where c: "c \<in> set cs" "vendor = Some c" by auto
    from process_one_found[of net b cs u vendor] ch True obtain r where
      r: "website_url r = fix_url u" "website_provider r = vendor"
         "process_one net cs b (Str u) =
               (None, b\<lparr>results := results b @ [r],
                        printed := printed b @ [Found vendor (fix_url u)],
                        requests := requests b + 2\<rparr>)" by auto
    have "emitted_for_match net cs [item] r"
      unfolding emitted_for_match_def using r c ch True Str by auto
    with r Str show ?thesis by simp
  qed
qed

lemma emitted_for_match_mono: "emitted_for_match net cs xs r \<Longrightarrow> set xs \<subseteq> set ys \<Longrightarrow> emitted_for_match net cs ys r"
  unfolding emitted_for_match_def by blast

lemma process_loop_inv:
  "\<exists>new. results (process_loop net cs b urls) = results b @ new \<and>
         length new \<le> length urls \<and>
         (\<forall>r\<in>set new. emitted_for_match net cs urls r) \<and>
         length (printed (process_loop net cs b urls)) = length (printed b) + length urls"
proof (induction urls arbitrary: b)
  case Nil
  then show ?case by simp
next
  case (Cons item items)
  from process_one_cases[of net cs b item] obtain b' where
    b': "process_one net cs b item = (None, b') \<or> process_one net cs b item = (Some AttributeError, b')"
        "results b' = results b \<or> (\<exists>r. results b' = results b @ [r] \<and> emitted_for_match net cs [item] r)"
        "length (printed b') + (case fst (process_one net cs b item) of None \<Rightarrow> 0 | Some e \<Rightarrow> 1)
          = length (printed b) + 1" by blast
  define b'' where "b'' = (case fst (process_one net cs b item) of None \<Rightarrow> b' | Some e \<Rightarrow> b'\<lparr>printed := printed b' @ [Failed]\<rparr>)"
  have loop: "process_loop net cs b (item # items) = process_loop net cs b'' items"
    using b'(1) by (auto simp: b''_def)
  have res: "results b'' = results b'" and pr: "length (printed b'') = length (printed b) + 1"
    using b'(1,3) by (auto simp: b''_def)
  from Cons.IH[of b''] obtain new where
    new: "results (process_loop net cs b'' items) = results b'' @ new"
         "length new \<le> length items" "\<forall>r\<in>set new. emitted_for_match net cs items r"
         "length (printed (process_loop net cs b'' items)) = length (printed b'') + length items"
    by blast
  have mono: "\<forall>r\<in>set new. emitted_for_match net cs (item # items) r"
    using new(3) by (auto intro: emitted_for_match_mono)
  from b'(2) show ?case
  proof
    assume "results b' = results b"
    with new res pr loop mono show ?thesis by (intro exI[of _ new]) auto
  next
    assume "\<exists>r. results b' = results b @ [r] \<and> emitted_for_match net cs [item] r"
    then obtain r where r: "results b' = results b @ [r]" "emitted_for_match net cs [item] r" by blast
    then have "emitted_for_match net cs (item # items) r" by (auto intro: emitted_for_match_mono)
    with new res pr loop mono r show ?thesis by (intro exI[of _ "r # new"]) auto
  qed
qed

section \<open>Properties of the location extractor\<close>

lemma city_match_groups:
  assumes "pattern \<in> set city_state_patterns" and "re_search pattern txt = Some m"
  shows "strip (match_group m 1) \<noteq> [] \<and> length (match_group m 2) = 2 \<and>
         list_all is_upper (match_group m 2)"
proof -
  from re_search_Some[OF assms(2)] obtain pre rest p1 r1 where
    st: "(p1, r1, m_groups m) \<in> set (rmatch pattern (pre, rest, []))" by blast
  from assms(1) have "pattern = city_zip_pattern \<or> pattern = city_pattern"
    by (simp add: city_state_patterns_def)
  with st obtain city state x where
    g: "m_groups m = [(2, state), (1, city)]" "length state = 2" "list_all is_upper state"
       "x \<in> set city" "is_upper x"
    using city_pattern_groups city_zip_pattern_groups by blast
  from g(4,5) have "strip city \<noteq> []"
    by (intro strip_nonempty[of x] upper_not_space)
  with g(1,2,3) show ?thesis by (simp add: match_group_def)
qed

lemma location_in_text_format:
  assumes "set ps \<subseteq> set city_state_patterns" "location_in_text ps txt [] \<noteq> []"
  shows "\<exists>city state. location_in_text ps txt [] = city @ '', '' @ state \<and> city \<noteq> [] \<and>
           length state = 2 \<and> list_all is_upper state"
  using assms
proof (induction ps)
  case Nil
  then show ?case by simp
next
  case (Cons pattern ps)
  show ?case
  proof (cases "re_search pattern txt")
    case None
    with Cons show ?thesis by simp
  next
    case (Some m)
    from Cons.prems(1) have "pattern \<in> set city_state_patterns" by simp
    from city_match_groups[OF this Some] Some show ?thesis by auto
  qed
qed

lemma location_in_elements_prefix:
  assumes "\<forall>e\<in>set es. location_in_text city_state_patterns (get_text e) [] = []"
  shows "location_in_elements (es @ rest) [] = location_in_elements rest []"
  using assms by (induction es) (simp_all add: Let_def)

lemma location_in_elements_hit:
  assumes "location_in_text city_state_patterns (get_text e) [] \<noteq> []"
  shows "location_in_elements (e # rest) [] = location_in_text city_state_patterns (get_text e) []"
  using assms by (simp add: Let_def)

lemma location_in_elements_format:
  "location_in_elements es [] \<noteq> [] \<Longrightarrow>
     \<exists>city state. location_in_elements es [] = city @ '', '' @ state \<and> city \<noteq> [] \<and>
           length state = 2 \<and> list_all is_upper state"
proof (induction es)
  case Nil
  then show ?case by simp
next
  case (Cons e es)
  show ?case
  proof (cases "location_in_text city_state_patterns (get_text e) [] = []")
    case True
    with Cons show ?thesis by (simp add: Let_def)
  next
    case False
    with location_in_text_format[of city_state_patterns "get_text e"] show ?thesis
      by (simp add: Let_def)
  qed
qed

lemma example_address_elements: "address_elements (soup example_clinic_page) =
        [Tag ''p'' [(''class'', ''contact-note'')] [NavigableString ''Call us'']] @
        Tag ''div'' [(''class'', ''location'')] [NavigableString example_location_text] #
        [Tag ''span'' [(''class'', ''address'')] [NavigableString ''Elsewhere, NY 10001'']]"
  by code_simp

lemma example_first_element_misses: "location_in_text city_state_patterns ''Call us'' [] = []"
  by code_simp

text \<open>
  C5. In one text the pattern with the ZIP code is tried before the pattern without it,
  so where the first matches its match is the output. The address elements are scanned
  in document order up to the first one in which a pattern matches, the text of the
  whole page is scanned when no element matched, and an output is always a non-empty
  city, a comma and a blank, and two capital letters.
\<close>

theorem location_pattern_priority:
  "location_in_text city_state_patterns txt cs =
     (case re_search city_zip_pattern txt of
        Some m \<Rightarrow> strip (match_group m 1) @ '', '' @ match_group m 2
      | None \<Rightarrow>
          (case re_search city_pattern txt of
             Some m \<Rightarrow> strip (match_group m 1) @ '', '' @ match_group m 2
           | None \<Rightarrow> cs)) \<and>
   (address_elements sp = es @ e # es' \<and>
    (\<forall>e'\<in>set es. location_in_text city_state_patterns (get_text e') [] = []) \<and>
    location_in_text city_state_patterns (get_text e) [] \<noteq> [] \<longrightarrow>
      extract_location sp = location_in_text city_state_patterns (get_text e) []) \<and>
   ((\<forall>e\<in>set (address_elements sp).
        location_in_text city_state_patterns (get_text e) [] = []) \<longrightarrow>
      extract_location sp = location_in_text city_state_patterns (get_text sp) []) \<and>
   (extract_location sp \<noteq> [] \<longrightarrow>
      (\<exists>city state. extract_location sp = city @ '', '' @ state \<and> city \<noteq> [] \<and>
          length state = 2 \<and> list_all is_upper state)) \<and>
   location_in_text city_state_patterns example_location_text [] = ''Somewhere, CA'' \<and>
   location_in_text [city_pattern] example_location_text [] = ''Visit us in Somewhere, CA''"
proof (intro conjI impI)
  show "location_in_text city_state_patterns txt cs =
     (case re_search city_zip_pattern txt of
        Some m \<Rightarrow> strip (match_group m 1) @ '', '' @ match_group m 2
      | None \<Rightarrow>
          (case re_search city_pattern txt of
             Some m \<Rightarrow> strip (match_group m 1) @ '', '' @ match_group m 2
           | None \<Rightarrow> cs))"
    by (simp add: city_state_patterns_def split: option.splits)
next
  assume a: "address_elements sp = es @ e # es' \<and>
    (\<forall>e'\<in>set es. location_in_text city_state_patterns (get_text e') [] = []) \<and>
    location_in_text city_state_patterns (get_text e) [] \<noteq> []"
  then have "location_in_elements (address_elements sp) [] =
               location_in_text city_state_patterns (get_text e) []"
    by (simp add: location_in_elements_prefix location_in_elements_hit)
  with a show "extract_location sp = location_in_text city_state_patterns (get_text e) []"
    by (simp add: extract_location_def Let_def)
next
  assume "\<forall>e\<in>set (address_elements sp).
        location_in_text city_state_patterns (get_text e) [] = []"
  from location_in_elements_prefix[OF this, of "[]"]
  show "extract_location sp = location_in_text city_state_patterns (get_text sp) []"
    by (simp add: extract_location_def Let_def)
next
  assume ne: "extract_location sp \<noteq> []"
  show "\<exists>city state. extract_location sp = city @ '', '' @ state \<and> city \<noteq> [] \<and>
          length state = 2 \<and> list_all is_upper state"
  proof (cases "location_in_elements (address_elements sp) [] = []")
    case True
    with ne location_in_text_format[of city_state_patterns "get_text sp"] show ?thesis
      by (simp add: extract_location_def Let_def)
  next
    case False
    with location_in_elements_format[OF False] show ?thesis
      by (simp add: extract_location_def Let_def)
  qed
next
  show "location_in_text city_state_patterns example_location_text [] = ''Somewhere, CA''"
    by code_simp
next
  show "location_in_text [city_pattern] example_location_text [] = ''Visit us in Somewhere, CA''"
    by code_simp
qed

theorem location_pattern_priority_witness:
  "address_elements (soup example_clinic_page) =
        [Tag ''p'' [(''class'', ''contact-note'')] [NavigableString ''Call us'']] @
        Tag ''div'' [(''class'', ''location'')] [NavigableString example_location_text] #
        [Tag ''span'' [(''class'', ''address'')] [NavigableString ''Elsewhere, NY 10001'']] \<and>
   location_in_text city_state_patterns ''Call us'' [] = [] \<and>
   extract_location (soup example_clinic_page) = ''Somewhere, CA''"
proof -
  have hit: "location_in_text city_state_patterns example_location_text [] = ''Somewhere, CA''"
    by code_simp
  from location_pattern_priority[of "[]" "[]" "soup example_clinic_page"
        "[Tag ''p'' [(''class'', ''contact-note'')] [NavigableString ''Call us'']]"
        "Tag ''div'' [(''class'', ''location'')] [NavigableString example_location_text]"
        "[Tag ''span'' [(''class'', ''address'')] [NavigableString ''Elsewhere, NY 10001'']]"]
    example_address_elements example_first_element_misses hit
  have "extract_location (soup example_clinic_page) = ''Somewhere, CA''"
    by simp
  with example_address_elements example_first_element_misses show ?thesis by simp
qed

section \<open>Properties of the assembled records and of the batch\<close>






















section \<open>Properties of the URL loader\<close>

lemma load_rows_map:
  "load_rows rows =
     map (\<lambda>row. if prefix ''http'' (hd row) then strip (hd row) else ''http://'' @ strip (hd row))
         (filter (\<lambda>row. row \<noteq> []) rows)"
  by (induction rows) (auto split: list.splits)

text \<open>
  C8, as the program has it. The CSV loader takes the first field of every non-empty row:
  a field that starts with http is kept without a prefix and stripped of surrounding
  whitespace, any other field is stripped and prefixed with the scheme. The batch
  processor prefixes an entry that does not start with http, unstripped, and keeps any
  other entry as it is; the record of an entry carries the URL so repaired.
\<close>

theorem url_scheme_normalization:
  "load_urls_from_csv (Inr rows) =
     Inr (map (\<lambda>row. if prefix ''http'' (hd row) then strip (hd row)
                      else ''http://'' @ strip (hd row))
              (filter (\<lambda>row. row \<noteq> []) rows)) \<and>
   fix_url u = (if prefix ''http'' u then u else ''http://'' @ u) \<and>
   (\<forall>r\<in>set (process_urls net n cs [Str u]). website_url r = fix_url u)"
proof -
  from process_loop_inv[of net cs "start_batch n" "[Str u]"] obtain new where
    new: "results (process_loop net cs (start_batch n) [Str u]) = results (start_batch n) @ new"
      "\<forall>r\<in>set new. emitted_for_match net cs [Str u] r" by blast
  then have "process_urls net n cs [Str u] = new"
    by (simp add: process_urls_def start_batch_def)
  with new(2) have "\<forall>r\<in>set (process_urls net n cs [Str u]). website_url r = fix_url u"
    by (auto simp: emitted_for_match_def)
  then show ?thesis
    by (simp add: load_urls_from_csv_def try_except_def load_rows_map fix_url_def)
qed

theorem url_scheme_normalization_witness:
  "load_urls_from_csv (Inr [[''http://a.example.com''], [], [''b.example.com '', ''x'']]) =
     Inr [''http://a.example.com'', ''http://b.example.com''] \<and>
   fix_url ''b.example.com'' = ''http://b.example.com'' \<and>
   fix_url ''http://a.example.com'' = ''http://a.example.com'' \<and>
   map website_url (process_urls example_clinic_net 0 [''tebra''] [Str ''b.example.com'']) =
     [''http://b.example.com'']"
proof -
  have "map (\<lambda>row. if prefix ''http'' (hd row) then strip (hd row)
                      else ''http://'' @ strip (hd row))
              (filter (\<lambda>row. row \<noteq> []) [[''http://a.example.com''], [], [''b.example.com '', ''x'']])
        = [''http://a.example.com'', ''http://b.example.com'']"
    by code_simp
  moreover have "prefix ''http'' ''http://a.example.com''" "\<not> prefix ''http'' ''b.example.com''"
    by code_simp+
  moreover have "length (process_urls example_clinic_net 0 [''tebra''] [Str ''b.example.com'']) = 1"
    by code_simp
  then obtain r where "process_urls example_clinic_net 0 [''tebra''] [Str ''b.example.com''] = [r]"
    by (auto simp: length_Suc_conv)
  ultimately show ?thesis
    using url_scheme_normalization[of "[[''http://a.example.com''], [], [''b.example.com '', ''x'']]"
            "''b.example.com''" example_clinic_net 0 "[''tebra'']"]
          url_scheme_normalization[of "[]" "''http://a.example.com''" example_clinic_net 0 "[]"]
    by simp
qed

text \<open>
  The claim C8 as worded keeps a string that starts with http unchanged: the loader
  strips it.
\<close>

theorem url_kept_unchanged_counterexample:
  "prefix ''http'' ''http://a.example.com '' \<and>
   load_urls_from_csv (Inr [[''http://a.example.com '']]) \<noteq> Inr [''http://a.example.com '']"
  by code_simp

text \<open>
  C6, evaluated on the about section of the example clinic page, whose text is
  Jane Doe, MD. The second name pattern matches the whole text, the window searched for
  the credential starts at the end of that match and is empty, and the credentials stay
  unset; the window that starts at the end of the name holds the credential MD. The same
  happens with the third pattern on Jane Doe MD, where the loop of Scrap.py records MD.
\<close>

theorem provider_credential_window_evaluated:
  "extract_provider (soup example_clinic_page) = (''Jane Doe'', []) \<and>
   map_option (\<lambda>m. (match_group m 1, m_group0 m, m_end m))
     (re_search (doctor_patterns ! 1) ''Jane Doe, MD'') = Some (''Jane Doe'', ''Jane Doe, MD'', 12) \<and>
   re_search credentials_pattern (take 50 (drop 12 ''Jane Doe, MD'')) = None \<and>
   map_option (\<lambda>m. match_group m 1)
     (re_search credentials_pattern (take 50 (drop 8 ''Jane Doe, MD''))) = Some ''MD'' \<and>
   provider_in_text doctor_patterns ''Jane Doe MD'' ([], []) = (''Jane Doe'', []) \<and>
   scrap_provider [Tag ''div'' [(''class'', ''about'')] [NavigableString ''Jane Doe MD'']] =
     (Some ''Jane Doe'', Some ''MD'')"
  by code_simp

end
